theory Spec2Isabelle
  imports Main "HOL-Library.AList"
begin

section \<open>The virtual DOM of rrdom: objects, classes and the heap\<close>

text \<open>
  The embedded program is the newest revision of the virtual DOM (the file that carries
  \<^verbatim>\<open>buildFromDom\<close>, classes \<^verbatim>\<open>RRNode\<close>, \<^verbatim>\<open>RRDocument\<close>, \<^verbatim>\<open>RRElement\<close>, ...), and, for
  \<^verbatim>\<open>contains\<close>, also \<^verbatim>\<open>rrdom/tree-node.ts\<close>.

  JavaScript objects are mutable and shared by reference, and the methods below write
  through both the receiver and the argument (which may be the same object).  So an
  object is an address, and the heap maps every address to the fields of the object
  living there.  A method takes the heap and returns the heap as the call leaves it,
  together with either the value returned or the error thrown; a thrown error keeps
  every write made before the \<^verbatim>\<open>throw\<close>, as in JavaScript.
\<close>

type_synonym addr = nat

text \<open>The enumeration \<^verbatim>\<open>NodeType\<close> of rrweb-snapshot.\<close>

datatype NodeType = Document | DocumentType | Element | Text | CDATA | Comment

text \<open>The concrete classes of the file; the last three element classes extend \<^verbatim>\<open>RRElement\<close>.\<close>

datatype rrclass =
    RRDocument | RRDocumentType | RRElement | RRImageElement | RRMediaElement
  | RRIframeElement | RRText | RRComment | RRCDATASection

text \<open>\<^verbatim>\<open>x instanceof RRElement\<close>.\<close>

fun instanceof_RRElement :: "rrclass \<Rightarrow> bool" where
  "instanceof_RRElement RRElement = True"
| "instanceof_RRElement RRImageElement = True"
| "instanceof_RRElement RRMediaElement = True"
| "instanceof_RRElement RRIframeElement = True"
| "instanceof_RRElement _ = False"

text \<open>The record \<^verbatim>\<open>serializedNodeWithId\<close> a node carries as \<^verbatim>\<open>__sn\<close>.  Its \<^verbatim>\<open>type\<close> is
  \<^verbatim>\<open>NodeTypeMap[node.nodeType]\<close> when the walk creates it, which is \<^verbatim>\<open>undefined\<close> (\<open>None\<close>) for a
  node kind outside the table.\<close>

record serializedNodeWithId =
  sn_type :: "NodeType option"
  sn_textContent :: string
  sn_id :: int
  sn_rootId :: "int option"

text \<open>Attribute values: \<^verbatim>\<open>Record<string, string | number | boolean>\<close>.\<close>

datatype attrval = AStr string | ANum int | ABool bool

text \<open>
  The fields of an object.  \<open>cls\<close> is its class (what \<^verbatim>\<open>instanceof\<close> reads); the next four
  are the fields of \<^verbatim>\<open>RRNode\<close>; \<open>mirror\<close> is the private \<^verbatim>\<open>Map<number, RRNode>\<close> of an
  \<^verbatim>\<open>RRDocument\<close>; the others belong to the element, media, iframe, text and doctype classes
  (\<open>textData\<close> is \<^verbatim>\<open>RRText.textContent\<close>, \<^verbatim>\<open>RRComment.data\<close> or \<^verbatim>\<open>RRCDATASection.data\<close>, \<open>None\<close>
  when the constructor got \<^verbatim>\<open>undefined\<close>).  JavaScript numbers are modelled as integers, which
  they are exactly up to \<open>2^53\<close>.
\<close>

record rrnode =
  cls :: rrclass
  sn :: "serializedNodeWithId option"
  children :: "addr list"
  parentElement :: "addr option"
  parentNode :: "addr option"
  mirror :: "int \<rightharpoonup> addr"
  tagName :: string
  attributes :: "string \<rightharpoonup> attrval"
  scrollLeft :: int
  scrollTop :: int
  shadowRoot :: "addr option"
  currentTime :: int
  paused :: bool
  contentDocument :: "addr option"
  textData :: "string option"
  doctypeName :: string
  publicId :: string
  systemId :: string

type_synonym heap = "addr \<Rightarrow> rrnode"

text \<open>The errors the file throws (all are \<^verbatim>\<open>Error\<close> objects, told apart by their message),
  and \<open>TypeError\<close> and \<open>DOMException\<close> for what the JavaScript runtime and the browser throw.\<close>

datatype error =
    UnsupportedOperation   \<comment> \<open>"This RRNode type does not support this method."\<close>
  | DuplicateRoot          \<comment> \<open>"Only one RRElement / RRDoctype on RRDocument allowed."\<close>
  | ReferenceNotFound      \<comment> \<open>"The RRNode before which the new node is to be inserted is not a child of this RRNode."\<close>
  | NotImplemented         \<comment> \<open>"Not implemented yet."\<close>
  | TypeError
  | DOMException

text \<open>The getter \<^verbatim>\<open>nodeType\<close>: a chain of \<^verbatim>\<open>instanceof\<close> tests, in the source's order.\<close>

definition nodeType :: "rrnode \<Rightarrow> NodeType option" where
  "nodeType n =
     (if cls n = RRDocument then Some Document
      else if cls n = RRDocumentType then Some DocumentType
      else if instanceof_RRElement (cls n) then Some Element
      else if cls n = RRText then Some Text
      else if cls n = RRCDATASection then Some CDATA
      else if cls n = RRComment then Some Comment
      else None)"

subsection \<open>Array primitives\<close>

text \<open>\<^verbatim>\<open>Array.prototype.indexOf\<close> on object references: the first index holding the object,
  \<open>None\<close> for the source's \<^verbatim>\<open>-1\<close>.\<close>

fun indexOf :: "'a list \<Rightarrow> 'a \<Rightarrow> nat option" where
  "indexOf [] x = None"
| "indexOf (y # ys) x = (if y = x then Some 0 else map_option Suc (indexOf ys x))"

text \<open>\<^verbatim>\<open>xs.splice(i, 1)\<close> and \<^verbatim>\<open>xs.splice(i, 0, x)\<close>, for \<open>i\<close> an index returned by \<open>indexOf\<close>.\<close>

definition splice_remove :: "nat \<Rightarrow> 'a list \<Rightarrow> 'a list" where
  "splice_remove i xs = take i xs @ drop (Suc i) xs"

definition splice_insert :: "nat \<Rightarrow> 'a \<Rightarrow> 'a list \<Rightarrow> 'a list" where
  "splice_insert i x xs = take i xs @ x # drop i xs"

subsection \<open>The methods of \<^verbatim>\<open>RRNode\<close>\<close>

definition RRNode_appendChild :: "addr \<Rightarrow> addr \<Rightarrow> heap \<Rightarrow> (error + addr) \<times> heap" where
  "RRNode_appendChild this newChild h = (Inl UnsupportedOperation, h)"

definition RRNode_insertBefore ::
  "addr \<Rightarrow> addr \<Rightarrow> addr option \<Rightarrow> heap \<Rightarrow> (error + addr) \<times> heap" where
  "RRNode_insertBefore this newChild refChild h = (Inl UnsupportedOperation, h)"

definition RRNode_contains :: "addr \<Rightarrow> addr \<Rightarrow> heap \<Rightarrow> (error + bool) \<times> heap" where
  "RRNode_contains this node h = (Inl NotImplemented, h)"

text \<open>\<^verbatim>\<open>removeChild\<close> has no \<^verbatim>\<open>throw\<close>; it is given the result type of the other methods so
  that "does not raise" is a statement about its result.  The three writes are kept in
  the source's order, since \<open>node\<close> may be \<open>this\<close>.\<close>

definition RRNode_removeChild :: "addr \<Rightarrow> addr \<Rightarrow> heap \<Rightarrow> (error + unit) \<times> heap" where
  "RRNode_removeChild this node h =
     (case indexOf (children (h this)) node of
        None \<Rightarrow> (Inr (), h)
      | Some indexOfChild \<Rightarrow>
          (let h1 = h(this := (h this)\<lparr>children := splice_remove indexOfChild (children (h this))\<rparr>);
               h2 = h1(node := (h1 node)\<lparr>parentElement := None\<rparr>);
               h3 = h2(node := (h2 node)\<lparr>parentNode := None\<rparr>)
           in (Inr (), h3)))"

text \<open>\<^verbatim>\<open>contains\<close> as \<^verbatim>\<open>rrdom/tree-node.ts\<close> has it: \<^verbatim>\<open>return false\<close>.\<close>

definition TreeNode_RRNode_contains :: "addr \<Rightarrow> addr \<Rightarrow> heap \<Rightarrow> (error + bool) \<times> heap" where
  "TreeNode_RRNode_contains this node h = (Inr False, h)"

subsection \<open>The methods of \<^verbatim>\<open>RRDocument\<close> and \<^verbatim>\<open>RRElement\<close>\<close>

definition RRDocument_appendChild :: "addr \<Rightarrow> addr \<Rightarrow> heap \<Rightarrow> (error + addr) \<times> heap" where
  "RRDocument_appendChild this childNode h =
     (let nt = nodeType (h childNode) in
      if (nt = Some Element \<or> nt = Some DocumentType) \<and>
         list_ex (\<lambda>s. nodeType (h s) = nt) (children (h this))
      then (Inl DuplicateRoot, h)
      else
        (let h1 = h(childNode := (h childNode)\<lparr>parentElement := None\<rparr>);
             h2 = h1(childNode := (h1 childNode)\<lparr>parentNode := Some this\<rparr>);
             h3 = h2(this := (h2 this)\<lparr>children := children (h2 this) @ [childNode]\<rparr>)
         in (Inr childNode, h3)))"

definition RRDocument_insertBefore ::
  "addr \<Rightarrow> addr \<Rightarrow> addr option \<Rightarrow> heap \<Rightarrow> (error + addr) \<times> heap" where
  "RRDocument_insertBefore this newChild refChild h =
     (case refChild of
        None \<Rightarrow> RRDocument_appendChild this newChild h
      | Some r \<Rightarrow>
          (case indexOf (children (h this)) r of
             None \<Rightarrow> (Inl ReferenceNotFound, h)
           | Some childIndex \<Rightarrow>
               (Inr newChild,
                h(this := (h this)\<lparr>children := splice_insert childIndex newChild (children (h this))\<rparr>))))"

definition RRElement_appendChild :: "addr \<Rightarrow> addr \<Rightarrow> heap \<Rightarrow> (error + addr) \<times> heap" where
  "RRElement_appendChild this newChild h =
     (let h1 = h(this := (h this)\<lparr>children := children (h this) @ [newChild]\<rparr>);
          h2 = h1(newChild := (h1 newChild)\<lparr>parentNode := Some this\<rparr>);
          h3 = h2(newChild := (h2 newChild)\<lparr>parentElement := Some this\<rparr>)
      in (Inr newChild, h3))"

definition RRElement_insertBefore ::
  "addr \<Rightarrow> addr \<Rightarrow> addr option \<Rightarrow> heap \<Rightarrow> (error + addr) \<times> heap" where
  "RRElement_insertBefore this newChild refChild h =
     (case refChild of
        None \<Rightarrow> RRElement_appendChild this newChild h
      | Some r \<Rightarrow>
          (case indexOf (children (h this)) r of
             None \<Rightarrow> (Inl ReferenceNotFound, h)
           | Some childIndex \<Rightarrow>
               (Inr newChild,
                h(this := (h this)\<lparr>children := splice_insert childIndex newChild (children (h this))\<rparr>))))"

subsection \<open>Method dispatch\<close>

text \<open>A call \<^verbatim>\<open>x.appendChild(y)\<close> runs the method of the class of \<open>x\<close>: \<^verbatim>\<open>RRDocument\<close> and
  \<^verbatim>\<open>RRElement\<close> (with its subclasses) override \<^verbatim>\<open>appendChild\<close> and \<^verbatim>\<open>insertBefore\<close>, every other
  class inherits those of \<^verbatim>\<open>RRNode\<close>.  No class overrides \<^verbatim>\<open>removeChild\<close> or \<^verbatim>\<open>contains\<close>.\<close>

definition appendChild :: "addr \<Rightarrow> addr \<Rightarrow> heap \<Rightarrow> (error + addr) \<times> heap" where
  "appendChild this newChild h =
     (if cls (h this) = RRDocument then RRDocument_appendChild this newChild h
      else if instanceof_RRElement (cls (h this)) then RRElement_appendChild this newChild h
      else RRNode_appendChild this newChild h)"

definition insertBefore ::
  "addr \<Rightarrow> addr \<Rightarrow> addr option \<Rightarrow> heap \<Rightarrow> (error + addr) \<times> heap" where
  "insertBefore this newChild refChild h =
     (if cls (h this) = RRDocument then RRDocument_insertBefore this newChild refChild h
      else if instanceof_RRElement (cls (h this)) then RRElement_insertBefore this newChild refChild h
      else RRNode_insertBefore this newChild refChild h)"

definition removeChild :: "addr \<Rightarrow> addr \<Rightarrow> heap \<Rightarrow> (error + unit) \<times> heap" where
  "removeChild this node h = RRNode_removeChild this node h"

definition contains :: "addr \<Rightarrow> addr \<Rightarrow> heap \<Rightarrow> (error + bool) \<times> heap" where
  "contains this node h = RRNode_contains this node h"

subsection \<open>Constructors\<close>

text \<open>The field initialisers of \<^verbatim>\<open>RRNode\<close> and of its subclasses: what \<^verbatim>\<open>new C(...)\<close> leaves in
  the fresh object before the constructor body of \<open>C\<close> assigns its arguments.\<close>

definition new_RRNode :: "rrclass \<Rightarrow> rrnode" where
  "new_RRNode c =
     \<lparr>cls = c, sn = None, children = [], parentElement = None, parentNode = None,
      mirror = Map.empty, tagName = [], attributes = Map.empty, scrollLeft = 0,
      scrollTop = 0, shadowRoot = None, currentTime = 0, paused = True,
      contentDocument = None, textData = None, doctypeName = [], publicId = [],
      systemId = []\<rparr>"

definition new_RRElement :: "rrclass \<Rightarrow> string \<Rightarrow> rrnode" where
  "new_RRElement c tag = (new_RRNode c)\<lparr>tagName := tag\<rparr>"

section \<open>The style view of an element\<close>

text \<open>JavaScript truthiness of an attribute value (\<open>None\<close> is \<^verbatim>\<open>undefined\<close>).\<close>

fun truthy :: "attrval option \<Rightarrow> bool" where
  "truthy None = False"
| "truthy (Some (AStr v)) = (v \<noteq> [])"
| "truthy (Some (ANum n)) = (n \<noteq> 0)"
| "truthy (Some (ABool b)) = b"

text \<open>The object the getter \<^verbatim>\<open>style\<close> returns: its string-valued properties in insertion
  order.  (Its one other property is the method \<^verbatim>\<open>setProperty\<close> itself.)\<close>

type_synonym style = "(string \<times> string) list"

text \<open>\<^verbatim>\<open>parseCSSText\<close>, \<^verbatim>\<open>camelize\<close> and \<^verbatim>\<open>toCSSText\<close> are imported from \<^verbatim>\<open>./style\<close>, which is
  not among the files at hand: they are parameters.  The getter hands \<^verbatim>\<open>parseCSSText\<close>
  whatever the attribute holds (the source casts it to a string), and \<^verbatim>\<open>toCSSText\<close> is
  taken on the string-valued properties of the view.\<close>

definition RRElement_style :: "(attrval \<Rightarrow> style) \<Rightarrow> addr \<Rightarrow> heap \<Rightarrow> style" where
  "RRElement_style parseCSSText this h =
     (case attributes (h this) ''style'' of
        None \<Rightarrow> []
      | Some v \<Rightarrow> if truthy (Some v) then parseCSSText v else [])"

text \<open>The closure \<^verbatim>\<open>style.setProperty\<close> of the view \<open>style\<close> of element \<open>this\<close>; \<^verbatim>\<open>!value\<close>
  holds for \<^verbatim>\<open>null\<close> and for the empty string.  It returns the view as the call leaves it.\<close>

definition style_setProperty ::
  "(string \<Rightarrow> string) \<Rightarrow> (style \<Rightarrow> string) \<Rightarrow> addr \<Rightarrow> style \<Rightarrow> string \<Rightarrow> string option \<Rightarrow> heap
     \<Rightarrow> style \<times> heap" where
  "style_setProperty camelize toCSSText this style name value h =
     (let normalizedName = camelize name;
          style' = (case value of
                      None \<Rightarrow> AList.delete normalizedName style
                    | Some v \<Rightarrow> if v = [] then AList.delete normalizedName style
                               else AList.update normalizedName v style)
      in (style',
          h(this := (h this)\<lparr>attributes := (attributes (h this))(''style'' \<mapsto> AStr (toCSSText style'))\<rparr>)))"

section \<open>The live document\<close>

text \<open>
  The browser's document that \<^verbatim>\<open>buildFromDom\<close> walks is not part of the program; the walk
  reads it and writes one property of it, \<^verbatim>\<open>__sn\<close>.  A live node is modelled by its
  identity, the browser-side properties the walk reads, and its \<^verbatim>\<open>childNodes\<close>; the
  \<^verbatim>\<open>__sn\<close> properties live in the state, by identity, since the walk assigns them and they
  outlast the call.  The properties read: \<^verbatim>\<open>nodeType\<close> (the DOM's numeric constant);
  whether the element is an \<^verbatim>\<open>HTMLFormElement\<close>; \<^verbatim>\<open>tagName\<close>; \<^verbatim>\<open>attributes\<close> as name/value
  pairs; \<^verbatim>\<open>value\<close>, \<^verbatim>\<open>checked\<close> and \<^verbatim>\<open>selected\<close> (falsy when the element has none);
  \<^verbatim>\<open>parentElement.value\<close> (\<open>None\<close> when \<^verbatim>\<open>parentElement\<close> is \<^verbatim>\<open>null\<close>, \<open>Some None\<close> when
  the parent has no \<^verbatim>\<open>value\<close>); the result of \<^verbatim>\<open>toDataURL()\<close> (\<open>None\<close> when the browser
  throws, as it does for a tainted canvas); \<^verbatim>\<open>paused\<close>, \<^verbatim>\<open>currentTime\<close>, \<^verbatim>\<open>scrollLeft\<close>,
  \<^verbatim>\<open>scrollTop\<close>; \<^verbatim>\<open>textContent\<close>; and the \<^verbatim>\<open>name\<close>, \<^verbatim>\<open>publicId\<close>, \<^verbatim>\<open>systemId\<close> of a doctype.
\<close>

record live_data =
  l_nodeType :: nat
  l_isForm :: bool
  l_tagName :: string
  l_attributes :: "(string \<times> string) list"
  l_value :: string
  l_checked :: bool
  l_selected :: bool
  l_parentValue :: "string option option"
  l_dataURL :: "string option"
  l_paused :: bool
  l_currentTime :: int
  l_scrollLeft :: int
  l_scrollTop :: int
  l_textContent :: string
  l_name :: string
  l_publicId :: string
  l_systemId :: string

datatype live = Live addr live_data "live list"

text \<open>The identities of the nodes of a live tree in document order, the order in which
  the walk meets them.\<close>

fun live_addrs :: "live \<Rightarrow> addr list"
  and live_addrs_list :: "live list \<Rightarrow> addr list" where
  "live_addrs (Live a d kids) = a # live_addrs_list kids"
| "live_addrs_list [] = []"
| "live_addrs_list (k # ks) = live_addrs k @ live_addrs_list ks"

fun live_id :: "live \<Rightarrow> addr" where
  "live_id (Live a node kids) = a"

text \<open>
  The state \<^verbatim>\<open>buildFromDom\<close> works on: the heap of virtual nodes; the next unused address,
  from which \<^verbatim>\<open>new\<close> allocates (in a well-formed state every object in use lies below
  it); the \<^verbatim>\<open>__sn\<close> property of every live node; and the variable \<^verbatim>\<open>notSerializedId\<close>
  that \<^verbatim>\<open>buildFromDom\<close> declares and its closure \<^verbatim>\<open>walk\<close> decrements.
\<close>

record state =
  heap :: heap
  nextAddr :: addr
  live_sn :: "addr \<rightharpoonup> serializedNodeWithId"
  notSerializedId :: int

definition new_object :: "rrnode \<Rightarrow> state \<Rightarrow> addr \<times> state" where
  "new_object n s =
     (nextAddr s, s\<lparr>heap := (heap s)(nextAddr s := n), nextAddr := Suc (nextAddr s)\<rparr>)"

text \<open>
  \<^verbatim>\<open>String.prototype.toLowerCase\<close> and \<^verbatim>\<open>trim\<close>.  A string is the sequence of its code units,
  each below 256 (the Latin-1 range).  There the letters with a lower-case form are
  \<^verbatim>\<open>A\<close> to \<^verbatim>\<open>Z\<close> and the code units \<^verbatim>\<open>C0\<close> to \<^verbatim>\<open>DE\<close> except \<^verbatim>\<open>D7\<close>, each 32 below its lower-case
  form, and the white space and line terminators that \<^verbatim>\<open>trim\<close> strips are \<^verbatim>\<open>09\<close> to \<^verbatim>\<open>0D\<close>,
  \<^verbatim>\<open>20\<close> and \<^verbatim>\<open>A0\<close>.
\<close>

definition upperLatin1 :: string where
  "upperLatin1 =
     ''ABCDEFGHIJKLMNOPQRSTUVWXYZ'' @
     [
        CHR 0xC0, CHR 0xC1, CHR 0xC2, CHR 0xC3, CHR 0xC4, CHR 0xC5, CHR 0xC6, CHR 0xC7,
        CHR 0xC8, CHR 0xC9, CHR 0xCA, CHR 0xCB, CHR 0xCC, CHR 0xCD, CHR 0xCE, CHR 0xCF,
        CHR 0xD0, CHR 0xD1, CHR 0xD2, CHR 0xD3, CHR 0xD4, CHR 0xD5, CHR 0xD6, CHR 0xD8,
        CHR 0xD9, CHR 0xDA, CHR 0xDB, CHR 0xDC, CHR 0xDD, CHR 0xDE]"

definition lowerLatin1 :: string where
  "lowerLatin1 =
     ''abcdefghijklmnopqrstuvwxyz'' @
     [
        CHR 0xE0, CHR 0xE1, CHR 0xE2, CHR 0xE3, CHR 0xE4, CHR 0xE5, CHR 0xE6, CHR 0xE7,
        CHR 0xE8, CHR 0xE9, CHR 0xEA, CHR 0xEB, CHR 0xEC, CHR 0xED, CHR 0xEE, CHR 0xEF,
        CHR 0xF0, CHR 0xF1, CHR 0xF2, CHR 0xF3, CHR 0xF4, CHR 0xF5, CHR 0xF6, CHR 0xF8,
        CHR 0xF9, CHR 0xFA, CHR 0xFB, CHR 0xFC, CHR 0xFD, CHR 0xFE]"

definition toLowerCase :: "string \<Rightarrow> string" where
  "toLowerCase =
     map (\<lambda>c. case map_of (zip upperLatin1 lowerLatin1) c of
                None \<Rightarrow> c
              | Some l \<Rightarrow> l)"

definition isSpace :: "char \<Rightarrow> bool" where
  "isSpace c \<longleftrightarrow>
     c \<in> set [CHR 0x09, CHR 0x0A, CHR 0x0B, CHR 0x0C, CHR 0x0D, CHR 0x20, CHR 0xA0]"

definition trim :: "string \<Rightarrow> string" where
  "trim s = rev (dropWhile isSpace (rev (dropWhile isSpace s)))"

definition getValidTagName :: "live_data \<Rightarrow> string" where
  "getValidTagName element =
     (if l_isForm element then ''form'' else trim (toLowerCase (l_tagName element)))"

text \<open>The table \<^verbatim>\<open>NodeTypeMap\<close>, keyed by the DOM's constants \<^verbatim>\<open>DOCUMENT_NODE\<close> = 9,
  \<^verbatim>\<open>DOCUMENT_TYPE_NODE\<close> = 10, \<^verbatim>\<open>ELEMENT_NODE\<close> = 1, \<^verbatim>\<open>TEXT_NODE\<close> = 3,
  \<^verbatim>\<open>CDATA_SECTION_NODE\<close> = 4, \<^verbatim>\<open>COMMENT_NODE\<close> = 8.\<close>

definition NodeTypeMap :: "nat \<Rightarrow> NodeType option" where
  "NodeTypeMap n =
     (if n = 9 then Some Document
      else if n = 10 then Some DocumentType
      else if n = 1 then Some Element
      else if n = 3 then Some Text
      else if n = 4 then Some CDATA
      else if n = 8 then Some Comment
      else None)"

text \<open>The factory methods of \<^verbatim>\<open>RRDocument\<close>.  An \<^verbatim>\<open>RRIframeElement\<close> constructs its own
  \<^verbatim>\<open>contentDocument\<close>.  (\<^verbatim>\<open>RRWindow\<close> objects are not modelled.)\<close>

definition createDocument :: "state \<Rightarrow> addr \<times> state" where
  "createDocument s = new_object (new_RRNode RRDocument) s"

definition createDocumentType :: "string \<Rightarrow> string \<Rightarrow> string \<Rightarrow> state \<Rightarrow> addr \<times> state" where
  "createDocumentType qualifiedName pid sid s =
     new_object ((new_RRNode RRDocumentType)
       \<lparr>doctypeName := qualifiedName, publicId := pid, systemId := sid\<rparr>) s"

definition createElement :: "string \<Rightarrow> state \<Rightarrow> addr \<times> state" where
  "createElement tag s =
     (let lowerTagName = toLowerCase tag in
      if lowerTagName = ''audio'' \<or> lowerTagName = ''video''
        then new_object (new_RRElement RRMediaElement lowerTagName) s
      else if lowerTagName = ''iframe''
        then (case new_object (new_RRNode RRDocument) s of
                (doc, s1) \<Rightarrow>
                  new_object ((new_RRElement RRIframeElement lowerTagName)
                                \<lparr>contentDocument := Some doc\<rparr>) s1)
      else if lowerTagName = ''img''
        then new_object (new_RRElement RRImageElement ''img'') s
      else new_object (new_RRElement RRElement lowerTagName) s)"

definition createTextNode :: "string \<Rightarrow> state \<Rightarrow> addr \<times> state" where
  "createTextNode d s = new_object ((new_RRNode RRText)\<lparr>textData := Some d\<rparr>) s"

definition createCDATASection :: "string option \<Rightarrow> state \<Rightarrow> addr \<times> state" where
  "createCDATASection d s = new_object ((new_RRNode RRCDATASection)\<lparr>textData := d\<rparr>) s"

definition createComment :: "string \<Rightarrow> state \<Rightarrow> addr \<times> state" where
  "createComment d s = new_object ((new_RRNode RRComment)\<lparr>textData := Some d\<rparr>) s"

text \<open>The \<^verbatim>\<open>ELEMENT_NODE\<close> case of the walk after \<^verbatim>\<open>createElement\<close>: the writes to the fresh
  \<^verbatim>\<open>rrElement\<close>, in the source's order, with the two places where the browser can throw.\<close>

definition setAttr :: "string \<Rightarrow> attrval \<Rightarrow> rrnode \<Rightarrow> rrnode" where
  "setAttr name v e = e\<lparr>attributes := (attributes e)(name \<mapsto> v)\<rparr>"

definition captureElement :: "live_data \<Rightarrow> string \<Rightarrow> rrnode \<Rightarrow> error + rrnode" where
  "captureElement elementNode tag e0 =
     (let e1 = fold (\<lambda>(name, v). setAttr name (AStr v)) (l_attributes elementNode) e0;
          e2 = (if tag = ''input'' \<or> tag = ''textarea'' \<or> tag = ''select''
                then (if (case attributes e1 ''type'' of
                            Some (AStr t) \<Rightarrow> t \<in> set [''radio'', ''checkbox'', ''submit'', ''button'']
                          | _ \<Rightarrow> False) \<and> l_value elementNode \<noteq> []
                      then setAttr ''value'' (AStr (l_value elementNode)) e1
                      else if l_checked elementNode
                        then setAttr ''checked'' (ABool (l_checked elementNode)) e1
                      else e1)
                else e1)
      in case (if tag = ''option''
               then (case l_parentValue elementNode of
                       None \<Rightarrow> Inl TypeError
                     | Some pv \<Rightarrow>
                         if attributes e2 ''value'' = map_option AStr pv
                         then Inr (setAttr ''selected'' (ABool (l_selected elementNode)) e2)
                         else Inr e2)
               else Inr e2) of
           Inl err \<Rightarrow> Inl err
         | Inr e3 \<Rightarrow>
            (case (if tag = ''canvas''
                   then (case l_dataURL elementNode of
                           None \<Rightarrow> Inl DOMException
                         | Some url \<Rightarrow> Inr (setAttr ''rr_dataURL'' (AStr url) e3))
                   else Inr e3) of
               Inl err \<Rightarrow> Inl err
             | Inr e4 \<Rightarrow>
                (let e5 = (if tag = ''audio'' \<or> tag = ''video''
                           then e4\<lparr>paused := l_paused elementNode,
                                   currentTime := l_currentTime elementNode\<rparr>
                           else e4);
                     e6 = (if l_scrollLeft elementNode \<noteq> 0
                           then e5\<lparr>scrollLeft := l_scrollLeft elementNode\<rparr> else e5);
                     e7 = (if l_scrollTop elementNode \<noteq> 0
                           then e6\<lparr>scrollTop := l_scrollTop elementNode\<rparr> else e6)
                 in Inr e7)))"

text \<open>The head of \<^verbatim>\<open>walk\<close>: a live node without \<^verbatim>\<open>__sn\<close> gets a record with the current
  \<^verbatim>\<open>notSerializedId\<close>, which is then decremented, and the record is stored on the node.\<close>

definition identify :: "addr \<Rightarrow> live_data \<Rightarrow> state \<Rightarrow> serializedNodeWithId \<times> state" where
  "identify a node s =
     (case live_sn s a of
        Some x \<Rightarrow> (x, s)
      | None \<Rightarrow>
          (let x = \<lparr>sn_type = NodeTypeMap (l_nodeType node), sn_textContent = [],
                     sn_id = notSerializedId s, sn_rootId = None\<rparr>
           in (x, s\<lparr>notSerializedId := notSerializedId s - 1,
                    live_sn := (live_sn s)(a \<mapsto> x)\<rparr>)))"

text \<open>The \<^verbatim>\<open>switch\<close> on \<^verbatim>\<open>node.nodeType\<close>; \<open>Inr None\<close> is the \<^verbatim>\<open>return\<close> of its \<^verbatim>\<open>default\<close>
  case.  In the document case the second operand of \<^verbatim>\<open>&&\<close> compares an object with a
  number by \<^verbatim>\<open>!==\<close> and is always true.\<close>

definition createFor ::
  "addr \<Rightarrow> live_data \<Rightarrow> serializedNodeWithId \<Rightarrow> state \<Rightarrow> (error + addr option) \<times> state" where
  "createFor this node x s =
     (if l_nodeType node = 9 then
        (if (case sn_rootId x of None \<Rightarrow> False | Some r \<Rightarrow> r \<noteq> 0)
         then (case createDocument s of (r, s') \<Rightarrow> (Inr (Some r), s'))
         else (Inr (Some this), s))
      else if l_nodeType node = 10 then
        (case createDocumentType (l_name node) (l_publicId node) (l_systemId node) s of
           (r, s') \<Rightarrow> (Inr (Some r), s'))
      else if l_nodeType node = 1 then
        (let tag = getValidTagName node in
         case createElement tag s of
           (r, s') \<Rightarrow>
             (case captureElement node tag (heap s' r) of
                Inl err \<Rightarrow> (Inl err, s')
              | Inr e \<Rightarrow> (Inr (Some r), s'\<lparr>heap := (heap s')(r := e)\<rparr>)))
      else if l_nodeType node = 3 then
        (case createTextNode (l_textContent node) s of (r, s') \<Rightarrow> (Inr (Some r), s'))
      else if l_nodeType node = 4 then
        (case createCDATASection None s of (r, s') \<Rightarrow> (Inr (Some r), s'))
      else if l_nodeType node = 8 then
        (case createComment (l_textContent node) s of (r, s') \<Rightarrow> (Inr (Some r), s'))
      else (Inr None, s))"

text \<open>\<^verbatim>\<open>if (!this.mirror.has(id)) { ... } else { ... }\<close>: a new virtual node, recorded in the
  mirror, or the one the mirror holds, stripped of parent and children.\<close>

definition resolve ::
  "addr \<Rightarrow> live_data \<Rightarrow> serializedNodeWithId \<Rightarrow> state \<Rightarrow> (error + addr option) \<times> state" where
  "resolve this node x s =
     (case mirror (heap s this) (sn_id x) of
        None \<Rightarrow>
          (case createFor this node x s of
             (Inl err, s') \<Rightarrow> (Inl err, s')
           | (Inr None, s') \<Rightarrow> (Inr None, s')
           | (Inr (Some r), s') \<Rightarrow>
               (let h1 = (heap s')(r := (heap s' r)\<lparr>sn := Some x\<rparr>);
                    h2 = h1(this := (h1 this)\<lparr>mirror := (mirror (h1 this))(sn_id x \<mapsto> r)\<rparr>)
                in (Inr (Some r), s'\<lparr>heap := h2\<rparr>)))
      | Some r \<Rightarrow>
          (let h1 = (heap s)(r := (heap s r)\<lparr>parentElement := None\<rparr>);
               h2 = h1(r := (h1 r)\<lparr>parentNode := None\<rparr>);
               h3 = h2(r := (h2 r)\<lparr>children := []\<rparr>)
           in (Inr (Some r), s\<lparr>heap := h3\<rparr>)))"

text \<open>Linking to the parent.  \<open>parent\<close> is the identity of
  \<^verbatim>\<open>node.parentElement || node.parentNode\<close>, \<open>None\<close> for \<^verbatim>\<open>null\<close>.  Reading \<^verbatim>\<open>.id\<close> of a missing
  \<^verbatim>\<open>__sn\<close>, or calling \<^verbatim>\<open>appendChild\<close> on a missing mirror entry, is a \<open>TypeError\<close>.\<close>

definition attach :: "addr \<Rightarrow> addr option \<Rightarrow> addr \<Rightarrow> state \<Rightarrow> error option \<times> state" where
  "attach this parent rrNode s =
     (case parent of
        None \<Rightarrow> (None, s)
      | Some p \<Rightarrow>
          (case live_sn s p of
             None \<Rightarrow> (Some TypeError, s)
           | Some parentSN \<Rightarrow>
               (case mirror (heap s this) (sn_id parentSN) of
                  None \<Rightarrow> (Some TypeError, s)
                | Some parentRRNode \<Rightarrow>
                    (case appendChild parentRRNode rrNode (heap s) of
                       (Inl err, h') \<Rightarrow> (Some err, s\<lparr>heap := h'\<rparr>)
                     | (Inr _, h') \<Rightarrow>
                         (let h1 = h'(rrNode := (h' rrNode)\<lparr>parentNode := Some parentRRNode\<rparr>);
                              h2 = h1(rrNode := (h1 rrNode)\<lparr>parentElement :=
                                     (if instanceof_RRElement (cls (h1 parentRRNode))
                                      then Some parentRRNode else None)\<rparr>)
                          in (None, s\<lparr>heap := h2\<rparr>))))))"

text \<open>The body of \<^verbatim>\<open>walk\<close> up to its last statement, and what that statement will do:
  recurse into \<^verbatim>\<open>childNodes\<close>, or nothing.\<close>

datatype outcome = Descend | Return | Throw error

definition visit :: "addr \<Rightarrow> addr option \<Rightarrow> addr \<Rightarrow> live_data \<Rightarrow> state \<Rightarrow> outcome \<times> state" where
  "visit this parent a node s =
     (case identify a node s of
        (x, s1) \<Rightarrow>
          (case resolve this node x s1 of
             (Inl err, s2) \<Rightarrow> (Throw err, s2)
           | (Inr None, s2) \<Rightarrow> (Return, s2)
           | (Inr (Some rrNode), s2) \<Rightarrow>
               (case attach this parent rrNode s2 of
                  (Some err, s3) \<Rightarrow> (Throw err, s3)
                | (None, s3) \<Rightarrow>
                    (if sn_type x = Some Document \<or> sn_type x = Some Element
                     then (Descend, s3) else (Return, s3)))))"

text \<open>\<^verbatim>\<open>walk\<close> and the \<^verbatim>\<open>forEach\<close> over \<^verbatim>\<open>node.childNodes\<close>; an error ends both.  In a DOM
  tree the parent of a node met through \<^verbatim>\<open>childNodes\<close> is the node whose list it is.\<close>

fun walk :: "addr \<Rightarrow> addr option \<Rightarrow> live \<Rightarrow> state \<Rightarrow> error option \<times> state"
  and walk_children :: "addr \<Rightarrow> addr \<Rightarrow> live list \<Rightarrow> state \<Rightarrow> error option \<times> state" where
  "walk this parent (Live a node kids) s =
     (case visit this parent a node s of
        (Descend, s') \<Rightarrow> walk_children this a kids s'
      | (Return, s') \<Rightarrow> (None, s')
      | (Throw err, s') \<Rightarrow> (Some err, s'))"
| "walk_children this p [] s = (None, s)"
| "walk_children this p (k # ks) s =
     (case walk this (Some p) k s of
        (Some err, s') \<Rightarrow> (Some err, s')
      | (None, s') \<Rightarrow> walk_children this p ks s')"

definition destroyTree :: "addr \<Rightarrow> state \<Rightarrow> state" where
  "destroyTree this s =
     (let h1 = (heap s)(this := (heap s this)\<lparr>children := []\<rparr>);
          h2 = h1(this := (h1 this)\<lparr>mirror := Map.empty\<rparr>)
      in s\<lparr>heap := h2\<rparr>)"

text \<open>\<^verbatim>\<open>buildFromDom(dom)\<close> on the document \<open>this\<close>: \<^verbatim>\<open>let notSerializedId = -1\<close>, then, for a
  \<^verbatim>\<open>dom\<close> that is not \<^verbatim>\<open>null\<close>, \<^verbatim>\<open>destroyTree\<close> and the walk from the root, whose parent is
  \<^verbatim>\<open>null\<close>.\<close>

definition buildFromDom :: "addr \<Rightarrow> live option \<Rightarrow> state \<Rightarrow> error option \<times> state" where
  "buildFromDom this domArg s =
     (let s0 = s\<lparr>notSerializedId := - 1\<rparr> in
      case domArg of
        None \<Rightarrow> (None, s0)
      | Some root \<Rightarrow> walk this None root (destroyTree this s0))"


text \<open>The live nodes on which \<^verbatim>\<open>walk\<close> is called, in the order of the calls: a trace of
  the recursion above, with the same conditions for going on.\<close>

fun visits :: "addr \<Rightarrow> addr option \<Rightarrow> live \<Rightarrow> state \<Rightarrow> addr list"
  and visits_children :: "addr \<Rightarrow> addr \<Rightarrow> live list \<Rightarrow> state \<Rightarrow> addr list" where
  "visits this parent (Live a node kids) s =
     a # (case visit this parent a node s of
            (Descend, s') \<Rightarrow> visits_children this a kids s'
          | (Return, s') \<Rightarrow> []
          | (Throw err, s') \<Rightarrow> [])"
| "visits_children this p [] s = []"
| "visits_children this p (k # ks) s =
     visits this (Some p) k s @
     (case walk this (Some p) k s of
        (Some err, s') \<Rightarrow> []
      | (None, s') \<Rightarrow> visits_children this p ks s')"

text \<open>The calls of \<^verbatim>\<open>walk\<close> that one \<^verbatim>\<open>buildFromDom(dom)\<close> makes.\<close>

definition buildFromDom_visits :: "addr \<Rightarrow> live \<Rightarrow> state \<Rightarrow> addr list" where
  "buildFromDom_visits this root s =
     visits this None root (destroyTree this (s\<lparr>notSerializedId := - 1\<rparr>))"

section \<open>Generated identifiers\<close>

text \<open>The identifiers a walk generated, in document order: those of the live nodes that
  had no \<^verbatim>\<open>__sn\<close> before it and have one after it, read off the nodes themselves.\<close>

definition generated ::
  "(addr \<rightharpoonup> serializedNodeWithId) \<Rightarrow> (addr \<rightharpoonup> serializedNodeWithId) \<Rightarrow> addr list \<Rightarrow> int list" where
  "generated before after as =
     map (\<lambda>a. sn_id (the (after a))) (filter (\<lambda>a. before a = None \<and> after a \<noteq> None) as)"

text \<open>The integers from \<open>c\<close> down to \<open>c' + 1\<close>.\<close>

definition countdown :: "int \<Rightarrow> int \<Rightarrow> int list" where
  "countdown c c' = map (\<lambda>i. c - int i) [0..<nat (c - c')]"

text \<open>What a part of the walk over the live nodes \<open>as\<close> does to the records and the
  counter: the counter only goes down, nodes outside \<open>as\<close> and nodes that had a record keep
  what they had, and the identifiers generated are the values the counter went through.\<close>

definition stamps_ok :: "addr list \<Rightarrow> state \<Rightarrow> state \<Rightarrow> bool" where
  "stamps_ok as s s' \<longleftrightarrow>
     notSerializedId s' \<le> notSerializedId s \<and>
     (\<forall>b. b \<notin> set as \<longrightarrow> live_sn s' b = live_sn s b) \<and>
     (\<forall>b. live_sn s b \<noteq> None \<longrightarrow> live_sn s' b = live_sn s b) \<and>
     (distinct as \<longrightarrow>
        generated (live_sn s) (live_sn s') as = countdown (notSerializedId s) (notSerializedId s'))"

section \<open>Sequences of tree operations\<close>

text \<open>A call of one of the three mutation methods: receiver first, then the arguments.\<close>

datatype tree_op =
    AppendChild addr addr
  | InsertBefore addr addr "addr option"
  | RemoveChild addr addr

text \<open>The heap a call leaves behind, whether it returned or threw (the caller goes on
  with the next call).\<close>

fun apply_op :: "tree_op \<Rightarrow> heap \<Rightarrow> heap" where
  "apply_op (AppendChild t n) h = snd (appendChild t n h)"
| "apply_op (InsertBefore t n r) h = snd (insertBefore t n r h)"
| "apply_op (RemoveChild t n) h = snd (removeChild t n h)"

fun run_ops :: "tree_op list \<Rightarrow> heap \<Rightarrow> heap" where
  "run_ops [] h = h"
| "run_ops (x # xs) h = run_ops xs (apply_op x h)"

text \<open>A node is detached when no children list holds it.  In a consistent heap every
  node in a children list points back at that container, \<^verbatim>\<open>parentElement\<close> only when the
  container is an element; detached nodes have \<^verbatim>\<open>null\<close> back-references; and no list
  holds a node twice.\<close>

definition detached :: "heap \<Rightarrow> addr \<Rightarrow> bool" where
  "detached h n \<longleftrightarrow> (\<forall>c. n \<notin> set (children (h c)))"

definition tree_ok :: "heap \<Rightarrow> bool" where
  "tree_ok h \<longleftrightarrow>
     (\<forall>c n. n \<in> set (children (h c)) \<longrightarrow>
        parentNode (h n) = Some c \<and>
        parentElement (h n) = (if instanceof_RRElement (cls (h c)) then Some c else None)) \<and>
     (\<forall>n. detached h n \<longrightarrow> parentNode (h n) = None \<and> parentElement (h n) = None) \<and>
     (\<forall>c. distinct (children (h c)))"

text \<open>The calls whose effect on back-references is stated below: attaching (by
  \<^verbatim>\<open>appendChild\<close>, or \<^verbatim>\<open>insertBefore\<close> with \<^verbatim>\<open>null\<close>) a node that is detached at that moment,
  and any \<^verbatim>\<open>removeChild\<close>.\<close>

fun op_ok :: "tree_op \<Rightarrow> heap \<Rightarrow> bool" where
  "op_ok (AppendChild t n) h = detached h n"
| "op_ok (InsertBefore t n r) h = (r = None \<and> detached h n)"
| "op_ok (RemoveChild t n) h = True"

fun admissible :: "tree_op list \<Rightarrow> heap \<Rightarrow> bool" where
  "admissible [] h = True"
| "admissible (x # xs) h = (op_ok x h \<and> admissible xs (apply_op x h))"

text \<open>The order of children the operations prescribe, on plain lists: at the end; just
  before the reference; the child deleted.  A call that throws (a leaf receiver, a second
  root of a document, a reference that is not a child) prescribes no change.\<close>

definition insert_before :: "'a \<Rightarrow> 'a \<Rightarrow> 'a list \<Rightarrow> 'a list" where
  "insert_before r n xs = takeWhile (\<lambda>x. x \<noteq> r) xs @ n # dropWhile (\<lambda>x. x \<noteq> r) xs"

definition root_conflict :: "heap \<Rightarrow> addr list \<Rightarrow> addr \<Rightarrow> bool" where
  "root_conflict h cs n \<longleftrightarrow>
     (nodeType (h n) = Some Element \<or> nodeType (h n) = Some DocumentType) \<and>
     (\<exists>x\<in>set cs. nodeType (h x) = nodeType (h n))"

definition prescribed_append :: "heap \<Rightarrow> addr \<Rightarrow> addr \<Rightarrow> (addr \<Rightarrow> addr list) \<Rightarrow> (addr \<Rightarrow> addr list)" where
  "prescribed_append h t n cl =
     (if cls (h t) = RRDocument \<and> \<not> root_conflict h (cl t) n \<or> instanceof_RRElement (cls (h t))
      then cl(t := cl t @ [n]) else cl)"

fun prescribed :: "heap \<Rightarrow> tree_op \<Rightarrow> (addr \<Rightarrow> addr list) \<Rightarrow> (addr \<Rightarrow> addr list)" where
  "prescribed h (AppendChild t n) cl = prescribed_append h t n cl"
| "prescribed h (InsertBefore t n None) cl = prescribed_append h t n cl"
| "prescribed h (InsertBefore t n (Some r)) cl =
     (if (cls (h t) = RRDocument \<or> instanceof_RRElement (cls (h t))) \<and> r \<in> set (cl t)
      then cl(t := insert_before r n (cl t)) else cl)"
| "prescribed h (RemoveChild t n) cl = cl(t := remove1 n (cl t))"

fun prescribed_run :: "heap \<Rightarrow> tree_op list \<Rightarrow> (addr \<Rightarrow> addr list) \<Rightarrow> (addr \<Rightarrow> addr list)" where
  "prescribed_run h [] cl = cl"
| "prescribed_run h (x # xs) cl = prescribed_run h xs (prescribed h x cl)"

section \<open>Concrete heaps for the evaluated examples\<close>

text \<open>A heap of detached, freshly constructed objects: a document at address 0, elements
  at 1 and 2, a doctype at 3, and text nodes everywhere else.\<close>

definition example_heap :: heap where
  "example_heap =
     (\<lambda>a. if a = 0 then new_RRNode RRDocument
          else if a = 1 then new_RRElement RRElement ''html''
          else if a = 2 then new_RRElement RRElement ''div''
          else if a = 3 then new_RRNode RRDocumentType
          else new_RRNode RRText)"

text \<open>The example heap after \<^verbatim>\<open>el.appendChild(div); el.appendChild(text); el.appendChild(div)\<close>,
  with the element at 1 as \<^verbatim>\<open>el\<close>, the element at 2 as \<^verbatim>\<open>div\<close> and the text node at 4.\<close>

definition example_dup_heap :: heap where
  "example_dup_heap =
     snd (appendChild 1 2 (snd (appendChild 1 4 (snd (appendChild 1 2 example_heap)))))"

text \<open>Stand-ins for the three functions of \<^verbatim>\<open>./style\<close>, enough for the declaration
  \<^verbatim>\<open>background-color: red;\<close>.\<close>

definition example_camelize :: "string \<Rightarrow> string" where
  "example_camelize n = (if n = ''background-color'' then ''backgroundColor'' else n)"

definition example_toCSSText :: "style \<Rightarrow> string" where
  "example_toCSSText m =
     (if m = [(''backgroundColor'', ''red'')] then ''background-color: red;'' else [])"

definition example_parseCSSText :: "attrval \<Rightarrow> style" where
  "example_parseCSSText v =
     (if v = AStr ''background-color: red;'' then [(''backgroundColor'', ''red'')] else [])"

text \<open>A live node with the given \<^verbatim>\<open>nodeType\<close> and \<^verbatim>\<open>tagName\<close> and nothing else to read; a
  state with the example heap and no live node recorded yet; and three live documents:
  \<^verbatim>\<open><html><body><div id="a">hi</div></body></html>\<close>, a document with an empty \<^verbatim>\<open>html\<close>
  element, and the latter after a comment has been appended to the document.\<close>

definition live_node :: "nat \<Rightarrow> string \<Rightarrow> live_data" where
  "live_node t tag =
     \<lparr>l_nodeType = t, l_isForm = False, l_tagName = tag, l_attributes = [], l_value = [],
      l_checked = False, l_selected = False, l_parentValue = None, l_dataURL = None,
      l_paused = True, l_currentTime = 0, l_scrollLeft = 0, l_scrollTop = 0,
      l_textContent = [], l_name = [], l_publicId = [], l_systemId = []\<rparr>"

definition example_state :: state where
  "example_state = \<lparr>heap = example_heap, nextAddr = 10, live_sn = Map.empty, notSerializedId = 0\<rparr>"

definition example_dom :: live where
  "example_dom =
     Live 100 (live_node 9 [])
       [Live 101 (live_node 1 ''HTML'')
          [Live 102 (live_node 1 ''BODY'')
             [Live 103 ((live_node 1 ''DIV'')\<lparr>l_attributes := [(''id'', ''a'')]\<rparr>)
                [Live 104 ((live_node 3 [])\<lparr>l_textContent := ''hi''\<rparr>) []]]]]"

definition example_dom1 :: live where
  "example_dom1 = Live 100 (live_node 9 []) [Live 101 (live_node 1 ''HTML'') []]"

definition example_dom2 :: live where
  "example_dom2 =
     Live 100 (live_node 9 [])
       [Live 101 (live_node 1 ''HTML'') [], Live 102 (live_node 8 []) []]"

section \<open>Facts about the array primitives\<close>

lemma indexOf_None_iff: "indexOf xs x = None \<longleftrightarrow> x \<notin> set xs"
  by (induction xs) auto

lemma indexOf_Some_split:
  "indexOf xs x = Some i \<Longrightarrow>
     \<exists>pre post. xs = pre @ x # post \<and> x \<notin> set pre \<and> length pre = i"
proof (induction xs arbitrary: i)
  case Nil
  then show ?case by simp
next
  case (Cons y ys)
  show ?case
  proof (cases "y = x")
    case True
    with Cons.prems have "i = 0" by simp
    with True show ?thesis by (intro exI [of _ "[]"] exI [of _ ys]) simp
  next
    case False
    with Cons.prems obtain j where j: "indexOf ys x = Some j" "i = Suc j" by auto
    from Cons.IH [OF j(1)] obtain pre post
      where "ys = pre @ x # post" "x \<notin> set pre" "length pre = j" by blast
    with False j(2) show ?thesis
      by (intro exI [of _ "y # pre"] exI [of _ post]) simp
  qed
qed

lemma indexOf_first: "x \<notin> set pre \<Longrightarrow> indexOf (pre @ x # post) x = Some (length pre)"
  by (induction pre) auto

lemma indexOf_mem: "x \<in> set xs \<Longrightarrow> \<exists>i. indexOf xs x = Some i"
  using indexOf_None_iff [of xs x] by (cases "indexOf xs x") auto

lemma splice_remove_first:
  "x \<notin> set pre \<Longrightarrow> splice_remove (length pre) (pre @ x # post) = pre @ post"
  by (simp add: splice_remove_def)

lemma splice_insert_first:
  "splice_insert (length pre) n (pre @ x # post) = pre @ n # x # post"
  by (simp add: splice_insert_def)

lemma remove1_first: "x \<notin> set pre \<Longrightarrow> remove1 x (pre @ x # post) = pre @ post"
  by (induction pre) auto

lemma splice_remove_indexOf:
  "indexOf xs x = Some i \<Longrightarrow> splice_remove i xs = remove1 x xs"
  using indexOf_Some_split [of xs x i] splice_remove_first remove1_first by fastforce

section \<open>Evaluating the methods on concrete heaps\<close>

lemmas method_defs =
  nodeType_def appendChild_def insertBefore_def removeChild_def contains_def
  RRNode_appendChild_def RRNode_insertBefore_def RRNode_removeChild_def RRNode_contains_def
  RRDocument_appendChild_def RRDocument_insertBefore_def
  RRElement_appendChild_def RRElement_insertBefore_def
  splice_insert_def splice_remove_def Let_def

lemmas example_defs = example_heap_def new_RRNode_def new_RRElement_def

lemmas walk_defs =
  buildFromDom_def destroyTree_def visit_def identify_def resolve_def createFor_def attach_def
  createDocument_def createDocumentType_def createElement_def createTextNode_def
  createCDATASection_def createComment_def new_object_def captureElement_def setAttr_def
  getValidTagName_def toLowerCase_def upperLatin1_def lowerLatin1_def trim_def isSpace_def
  NodeTypeMap_def

lemmas live_example_defs = live_node_def example_state_def example_dom_def example_dom1_def
  example_dom2_def

section \<open>Leaf nodes reject children (C4)\<close>

text \<open>
  C4.  \<^verbatim>\<open>RRText\<close>, \<^verbatim>\<open>RRComment\<close>, \<^verbatim>\<open>RRCDATASection\<close> and \<^verbatim>\<open>RRDocumentType\<close> inherit
  \<^verbatim>\<open>appendChild\<close> from \<^verbatim>\<open>RRNode\<close>.  Whatever the argument, a call on such a receiver throws
  the unsupported-operation error, and the heap after the call is the heap before it:
  receiver, argument and every other object keep all their fields.
\<close>

theorem C4_leaf_appendChild_unsupported:
  assumes "cls (h this) \<in> {RRText, RRComment, RRCDATASection, RRDocumentType}"
  shows "appendChild this newChild h = (Inl UnsupportedOperation, h)"
  using assms by (auto simp: appendChild_def RRNode_appendChild_def)

theorem C4_leaf_appendChild_unsupported_witness:
  "appendChild 4 1 example_heap = (Inl UnsupportedOperation, example_heap) \<and>
   appendChild 3 4 example_heap = (Inl UnsupportedOperation, example_heap)"
proof -
  have a: "cls (example_heap 4) \<in> {RRText, RRComment, RRCDATASection, RRDocumentType}"
    by (simp add: example_heap_def new_RRNode_def)
  have b: "cls (example_heap 3) \<in> {RRText, RRComment, RRCDATASection, RRDocumentType}"
    by (simp add: example_heap_def new_RRNode_def)
  show ?thesis
    using C4_leaf_appendChild_unsupported [of example_heap 4 1, OF a]
      C4_leaf_appendChild_unsupported [of example_heap 3 4, OF b] by simp
qed

section \<open>\<^verbatim>\<open>insertBefore\<close> (C5)\<close>

lemma insertBefore_splice:
  assumes "r \<in> set cs"
  shows "\<exists>pre post i. cs = pre @ r # post \<and> r \<notin> set pre \<and> indexOf cs r = Some i \<and>
           splice_insert i n cs = pre @ n # r # post"
proof -
  from indexOf_mem [OF assms] obtain i where i: "indexOf cs r = Some i" ..
  from indexOf_Some_split [OF i] obtain pre post
    where s: "cs = pre @ r # post" "r \<notin> set pre" "length pre = i" by blast
  have "splice_insert i n cs = pre @ n # r # post"
    using s splice_insert_first [of pre n r post] by simp
  with i s show ?thesis by blast
qed

text \<open>
  C5.  On a document or an element: with \<^verbatim>\<open>null\<close> as the reference, \<^verbatim>\<open>insertBefore\<close> is
  \<^verbatim>\<open>appendChild\<close> (same result or error, same heap); with a reference that is not among the
  children it throws reference-not-found and leaves the heap as it was; with a reference
  that is a child it returns the new node, and the children become the old list with the
  new node put immediately before the first occurrence of the reference, everything else
  in the heap unchanged.
\<close>

theorem C5_insertBefore:
  assumes "cls (h t) = RRDocument \<or> instanceof_RRElement (cls (h t))"
  shows "insertBefore t n None h = appendChild t n h \<and>
         (r \<notin> set (children (h t)) \<longrightarrow>
            insertBefore t n (Some r) h = (Inl ReferenceNotFound, h)) \<and>
         (r \<in> set (children (h t)) \<longrightarrow>
            (\<exists>pre post. children (h t) = pre @ r # post \<and> r \<notin> set pre \<and>
               insertBefore t n (Some r) h =
                 (Inr n, h(t := (h t)\<lparr>children := pre @ n # r # post\<rparr>))))"
proof (intro conjI impI)
  show "insertBefore t n None h = appendChild t n h"
    by (simp add: insertBefore_def appendChild_def RRDocument_insertBefore_def
        RRElement_insertBefore_def RRNode_insertBefore_def RRNode_appendChild_def)
next
  assume "r \<notin> set (children (h t))"
  then have "indexOf (children (h t)) r = None" by (simp add: indexOf_None_iff)
  with assms show "insertBefore t n (Some r) h = (Inl ReferenceNotFound, h)"
    by (auto simp: insertBefore_def RRDocument_insertBefore_def RRElement_insertBefore_def)
next
  assume "r \<in> set (children (h t))"
  from insertBefore_splice [OF this, of n] obtain pre post i
    where s: "children (h t) = pre @ r # post" "r \<notin> set pre"
      "indexOf (children (h t)) r = Some i"
      "splice_insert i n (children (h t)) = pre @ n # r # post" by blast
  have "insertBefore t n (Some r) h =
          (Inr n, h(t := (h t)\<lparr>children := pre @ n # r # post\<rparr>))"
    using assms s(3,4)
    by (auto simp: insertBefore_def RRDocument_insertBefore_def RRElement_insertBefore_def)
  with s(1,2) show "\<exists>pre post. children (h t) = pre @ r # post \<and> r \<notin> set pre \<and>
      insertBefore t n (Some r) h = (Inr n, h(t := (h t)\<lparr>children := pre @ n # r # post\<rparr>))"
    by blast
qed

theorem C5_insertBefore_witness:
  "insertBefore 1 4 None (snd (appendChild 1 2 example_heap)) =
     appendChild 1 4 (snd (appendChild 1 2 example_heap)) \<and>
   insertBefore 1 4 (Some 3) (snd (appendChild 1 2 example_heap)) =
     (Inl ReferenceNotFound, snd (appendChild 1 2 example_heap)) \<and>
   fst (insertBefore 1 4 (Some 2) (snd (appendChild 1 2 example_heap))) = Inr 4 \<and>
   children (snd (insertBefore 1 4 (Some 2) (snd (appendChild 1 2 example_heap))) 1) = [4, 2]"
proof -
  let ?h = "snd (appendChild 1 2 example_heap)"
  have c: "cls (?h 1) = RRDocument \<or> instanceof_RRElement (cls (?h 1))"
    by (simp add: method_defs example_defs)
  have ch: "children (?h 1) = [2]"
    by (simp add: method_defs example_defs)
  from C5_insertBefore [of ?h 1 4 3, OF c] ch
  have a: "insertBefore 1 4 None ?h = appendChild 1 4 ?h"
    and b: "insertBefore 1 4 (Some 3) ?h = (Inl ReferenceNotFound, ?h)"
    by simp_all
  from C5_insertBefore [of ?h 1 4 2, OF c] ch obtain pre post
    where p: "[2::nat] = pre @ 2 # post" "2 \<notin> set pre"
      and r: "insertBefore 1 4 (Some 2) ?h =
                (Inr 4, ?h(1 := (?h 1)\<lparr>children := pre @ 4 # 2 # post\<rparr>))"
    by auto
  from p have "pre = [] \<and> post = []" by (cases pre) auto
  with r have "fst (insertBefore 1 4 (Some 2) ?h) = Inr 4 \<and>
      children (snd (insertBefore 1 4 (Some 2) ?h) 1) = [4, 2]" by simp
  with a b show ?thesis by simp
qed

section \<open>\<^verbatim>\<open>removeChild\<close> (C7)\<close>

text \<open>
  C7, as the code has it.  \<^verbatim>\<open>removeChild\<close> returns normally on every receiver and
  argument.  When the argument is not among the receiver's children the heap is
  unchanged.  When it is, its first occurrence is deleted from the receiver's children
  (so the list is one shorter, and no longer holds the node if it held it once), its
  \<^verbatim>\<open>parentNode\<close> and \<^verbatim>\<open>parentElement\<close> become \<^verbatim>\<open>null\<close>, and no other object changes.
\<close>

theorem C7_removeChild:
  "fst (removeChild this node h) = Inr () \<and>
   (node \<notin> set (children (h this)) \<longrightarrow> snd (removeChild this node h) = h) \<and>
   (node \<in> set (children (h this)) \<longrightarrow>
      children (snd (removeChild this node h) this) = remove1 node (children (h this)) \<and>
      length (children (snd (removeChild this node h) this)) = length (children (h this)) - 1 \<and>
      (distinct (children (h this)) \<longrightarrow>
         node \<notin> set (children (snd (removeChild this node h) this))) \<and>
      parentNode (snd (removeChild this node h) node) = None \<and>
      parentElement (snd (removeChild this node h) node) = None \<and>
      (\<forall>a. a \<noteq> this \<and> a \<noteq> node \<longrightarrow> snd (removeChild this node h) a = h a))"
proof (cases "indexOf (children (h this)) node")
  case None
  then have "node \<notin> set (children (h this))" by (simp add: indexOf_None_iff)
  with None show ?thesis
    by (simp add: removeChild_def RRNode_removeChild_def)
next
  case (Some i)
  then have m: "node \<in> set (children (h this))"
    using indexOf_None_iff [of "children (h this)" node] by auto
  have c: "children (snd (removeChild this node h) this) = remove1 node (children (h this))"
    using Some splice_remove_indexOf [OF Some]
    by (simp add: removeChild_def RRNode_removeChild_def Let_def)
  from m have l: "length (remove1 node (children (h this))) = length (children (h this)) - 1"
    by (simp add: length_remove1)
  have d: "distinct (children (h this)) \<longrightarrow> node \<notin> set (remove1 node (children (h this)))"
    by simp
  have p: "parentNode (snd (removeChild this node h) node) = None \<and>
      parentElement (snd (removeChild this node h) node) = None \<and>
      (\<forall>a. a \<noteq> this \<and> a \<noteq> node \<longrightarrow> snd (removeChild this node h) a = h a)"
    using Some by (simp add: removeChild_def RRNode_removeChild_def Let_def)
  have r: "fst (removeChild this node h) = Inr ()"
    using Some by (simp add: removeChild_def RRNode_removeChild_def Let_def)
  from m r c l d p show ?thesis by simp
qed

theorem C7_removeChild_witness:
  "fst (removeChild 1 2 (snd (appendChild 1 2 example_heap))) = Inr () \<and>
   children (snd (removeChild 1 2 (snd (appendChild 1 2 example_heap))) 1) = [] \<and>
   parentNode (snd (removeChild 1 2 (snd (appendChild 1 2 example_heap))) 2) = None \<and>
   parentElement (snd (removeChild 1 2 (snd (appendChild 1 2 example_heap))) 2) = None \<and>
   removeChild 1 3 (snd (appendChild 1 2 example_heap)) =
     (Inr (), snd (appendChild 1 2 example_heap))"
proof -
  let ?h = "snd (appendChild 1 2 example_heap)"
  have ch: "children (?h 1) = [2]"
    by (simp add: method_defs example_defs)
  from C7_removeChild [of 1 2 ?h] ch
  have a: "fst (removeChild 1 2 ?h) = Inr () \<and> children (snd (removeChild 1 2 ?h) 1) = [] \<and>
      parentNode (snd (removeChild 1 2 ?h) 2) = None \<and>
      parentElement (snd (removeChild 1 2 ?h) 2) = None"
    by simp
  from C7_removeChild [of 1 3 ?h] ch
  have "fst (removeChild 1 3 ?h) = Inr () \<and> snd (removeChild 1 3 ?h) = ?h"
    by simp
  then have "removeChild 1 3 ?h = (Inr (), ?h)"
    by (simp add: prod_eq_iff)
  with a show ?thesis by simp
qed

text \<open>
  The claim as stated, that a current child is removed from the children list, fails
  when the list holds the node twice, which \<^verbatim>\<open>appendChild\<close> allows.  After
  \<^verbatim>\<open>el.appendChild(div); el.appendChild(text); el.appendChild(div)\<close> the children are
  \<^verbatim>\<open>[div, text, div]\<close>; \<^verbatim>\<open>el.removeChild(div)\<close> returns normally and leaves \<^verbatim>\<open>[text, div]\<close>:
  \<^verbatim>\<open>div\<close> is still a child of \<^verbatim>\<open>el\<close>, now with \<^verbatim>\<open>null\<close> back-references.
\<close>

theorem C7_removeChild_counterexample:
  "children (example_dup_heap 1) = [2, 4, 2] \<and>
   fst (removeChild 1 2 example_dup_heap) = Inr () \<and>
   children (snd (removeChild 1 2 example_dup_heap) 1) = [4, 2] \<and>
   2 \<in> set (children (snd (removeChild 1 2 example_dup_heap) 1)) \<and>
   parentNode (snd (removeChild 1 2 example_dup_heap) 2) = None \<and>
   parentElement (snd (removeChild 1 2 example_dup_heap) 2) = None"
  by (simp add: example_dup_heap_def method_defs example_defs)

section \<open>\<^verbatim>\<open>contains\<close> (C9)\<close>

text \<open>
  C9.  In the newest revision \<^verbatim>\<open>contains\<close> throws "Not implemented yet." on every receiver
  and argument.  The \<^verbatim>\<open>RRNode\<close> of \<^verbatim>\<open>rrdom/tree-node.ts\<close> does not: its \<^verbatim>\<open>contains\<close> returns
  \<^verbatim>\<open>false\<close> and throws nothing.
\<close>

theorem C9_tree_node_contains_returns_false:
  "TreeNode_RRNode_contains this node h = (Inr False, h) \<and>
   contains this node h = (Inl NotImplemented, h)"
  by (simp add: TreeNode_RRNode_contains_def contains_def RRNode_contains_def)

section \<open>The root constraint of \<^verbatim>\<open>RRDocument.appendChild\<close> (C10)\<close>

lemma RRDocument_appendChild_raises:
  "(nodeType (h c) = Some Element \<or> nodeType (h c) = Some DocumentType) \<and>
   (\<exists>x\<in>set (children (h this)). nodeType (h x) = nodeType (h c)) \<Longrightarrow>
   RRDocument_appendChild this c h = (Inl DuplicateRoot, h)"
  by (auto simp: RRDocument_appendChild_def Let_def list_ex_iff)

lemma RRDocument_appendChild_succeeds:
  "\<not> ((nodeType (h c) = Some Element \<or> nodeType (h c) = Some DocumentType) \<and>
      (\<exists>x\<in>set (children (h this)). nodeType (h x) = nodeType (h c))) \<Longrightarrow>
   fst (RRDocument_appendChild this c h) = Inr c \<and>
   children (snd (RRDocument_appendChild this c h) this) = children (h this) @ [c] \<and>
   parentNode (snd (RRDocument_appendChild this c h) c) = Some this \<and>
   parentElement (snd (RRDocument_appendChild this c h) c) = None \<and>
   (\<forall>a. a \<noteq> this \<and> a \<noteq> c \<longrightarrow> snd (RRDocument_appendChild this c h) a = h a)"
  by (auto simp: RRDocument_appendChild_def Let_def list_ex_iff)

text \<open>
  C10.  \<^verbatim>\<open>RRDocument.appendChild\<close> throws exactly when the new child is an element and the
  document already has an element child, or the new child is a doctype and the document
  already has a doctype child; the error is then the duplicate-root error.  A text,
  comment or CDATA node is always accepted and becomes the last child, however many
  children of those kinds there already are.
\<close>

theorem C10_RRDocument_appendChild_raises_iff:
  "((\<exists>e. fst (RRDocument_appendChild this c h) = Inl e) \<longleftrightarrow>
      (nodeType (h c) = Some Element \<and>
         (\<exists>x\<in>set (children (h this)). nodeType (h x) = Some Element)) \<or>
      (nodeType (h c) = Some DocumentType \<and>
         (\<exists>x\<in>set (children (h this)). nodeType (h x) = Some DocumentType))) \<and>
   ((\<exists>e. fst (RRDocument_appendChild this c h) = Inl e) \<longrightarrow>
      RRDocument_appendChild this c h = (Inl DuplicateRoot, h)) \<and>
   (nodeType (h c) \<in> {Some Text, Some Comment, Some CDATA} \<longrightarrow>
      fst (RRDocument_appendChild this c h) = Inr c \<and>
      children (snd (RRDocument_appendChild this c h) this) = children (h this) @ [c])"
proof (cases "(nodeType (h c) = Some Element \<or> nodeType (h c) = Some DocumentType) \<and>
      (\<exists>x\<in>set (children (h this)). nodeType (h x) = nodeType (h c))")
  case True
  from RRDocument_appendChild_raises [OF True] True show ?thesis by auto
next
  case False
  from RRDocument_appendChild_succeeds [OF False] False show ?thesis by auto
qed

theorem C10_RRDocument_appendChild_raises_iff_witness:
  "RRDocument_appendChild 0 2 (snd (RRDocument_appendChild 0 1 example_heap)) =
     (Inl DuplicateRoot, snd (RRDocument_appendChild 0 1 example_heap)) \<and>
   fst (RRDocument_appendChild 0 4 (snd (RRDocument_appendChild 0 1 example_heap))) = Inr 4 \<and>
   children (snd (RRDocument_appendChild 0 4 (snd (RRDocument_appendChild 0 1 example_heap))) 0)
     = [1, 4]"
proof -
  let ?h = "snd (RRDocument_appendChild 0 1 example_heap)"
  have ch: "children (?h 0) = [1]"
    by (simp add: method_defs example_defs)
  have k: "nodeType (?h 1) = Some Element" "nodeType (?h 2) = Some Element"
    "nodeType (?h 4) = Some Text"
    by (simp_all add: method_defs example_defs)
  from C10_RRDocument_appendChild_raises_iff [of 0 2 ?h] ch k
  have a: "RRDocument_appendChild 0 2 ?h = (Inl DuplicateRoot, ?h)" by simp
  from C10_RRDocument_appendChild_raises_iff [of 0 4 ?h] ch k
  have "fst (RRDocument_appendChild 0 4 ?h) = Inr 4 \<and>
      children (snd (RRDocument_appendChild 0 4 ?h) 0) = [1, 4]" by simp
  with a show ?thesis by simp
qed

section \<open>The root constraint under \<^verbatim>\<open>insertBefore\<close> (C1)\<close>

text \<open>\<^verbatim>\<open>RRDocument.appendChild\<close> itself keeps the constraint: a document with at most one
  element child and at most one doctype child has so after the call, whether it returns
  or throws.\<close>

lemma nodeType_RRDocument_appendChild:
  "nodeType (snd (RRDocument_appendChild this c h) x) = nodeType (h x)"
  by (simp add: RRDocument_appendChild_def nodeType_def Let_def)

lemma RRDocument_appendChild_keeps_roots:
  assumes "k = Element \<or> k = DocumentType"
    and "length (filter (\<lambda>x. nodeType (h x) = Some k) (children (h this))) \<le> 1"
  shows "length (filter (\<lambda>x. nodeType (snd (RRDocument_appendChild this c h) x) = Some k)
           (children (snd (RRDocument_appendChild this c h) this))) \<le> 1"
proof (cases "(nodeType (h c) = Some Element \<or> nodeType (h c) = Some DocumentType) \<and>
      (\<exists>x\<in>set (children (h this)). nodeType (h x) = nodeType (h c))")
  case True
  from RRDocument_appendChild_raises [OF True] assms(2) show ?thesis by simp
next
  case False
  from RRDocument_appendChild_succeeds [OF False]
  have ch: "children (snd (RRDocument_appendChild this c h) this) = children (h this) @ [c]"
    by blast
  show ?thesis
  proof (cases "nodeType (h c) = Some k")
    case True
    with False assms(1) have "\<forall>x\<in>set (children (h this)). nodeType (h x) \<noteq> Some k"
      by auto
    then have "filter (\<lambda>x. nodeType (h x) = Some k) (children (h this)) = []"
      by (simp add: filter_empty_conv)
    with True show ?thesis
      by (simp add: ch nodeType_RRDocument_appendChild)
  next
    case False
    with assms(2) show ?thesis
      by (simp add: ch nodeType_RRDocument_appendChild)
  qed
qed

text \<open>
  C1.  \<^verbatim>\<open>RRDocument.appendChild\<close> keeps a document from getting a second element child, but
  \<^verbatim>\<open>RRDocument.insertBefore\<close> with a reference child splices the new node in without that
  test.  On a document whose only child is the element at address 1, inserting the
  element at address 2 before it returns normally and leaves two element children, where
  appending the same element throws the duplicate-root error.
\<close>

theorem C1_insertBefore_admits_second_root:
  "fst (RRDocument_insertBefore 0 2 (Some 1) (snd (RRDocument_appendChild 0 1 example_heap)))
     = Inr 2 \<and>
   children
     (snd (RRDocument_insertBefore 0 2 (Some 1) (snd (RRDocument_appendChild 0 1 example_heap))) 0)
     = [2, 1] \<and>
   nodeType
     (snd (RRDocument_insertBefore 0 2 (Some 1) (snd (RRDocument_appendChild 0 1 example_heap))) 1)
     = Some Element \<and>
   nodeType
     (snd (RRDocument_insertBefore 0 2 (Some 1) (snd (RRDocument_appendChild 0 1 example_heap))) 2)
     = Some Element \<and>
   fst (RRDocument_appendChild 0 2 (snd (RRDocument_appendChild 0 1 example_heap)))
     = Inl DuplicateRoot"
  by (simp add: method_defs example_defs)

section \<open>Children order and parent back-references (C2)\<close>


lemma cls_appendChild: "cls (snd (appendChild t n h) a) = cls (h a)"
  by (simp add: method_defs)

lemma cls_insertBefore: "cls (snd (insertBefore t n r h) a) = cls (h a)"
  by (simp add: method_defs split: option.splits)

lemma cls_removeChild: "cls (snd (removeChild t n h) a) = cls (h a)"
  by (simp add: method_defs split: option.splits)

lemma cls_apply_op: "cls (apply_op x h a) = cls (h a)"
  by (cases x) (simp_all add: cls_appendChild cls_insertBefore cls_removeChild)

lemma insert_before_first:
  "r \<notin> set pre \<Longrightarrow> insert_before r n (pre @ r # post) = pre @ n # r # post"
  by (induction pre) (auto simp: insert_before_def)

lemma splice_insert_indexOf:
  "indexOf xs r = Some i \<Longrightarrow> splice_insert i n xs = insert_before r n xs"
  using indexOf_Some_split [of xs r i] insert_before_first splice_insert_first by fastforce

lemma children_appendChild:
  "children (snd (appendChild t n h) c) = prescribed_append h t n (\<lambda>c. children (h c)) c"
  by (simp add: method_defs root_conflict_def prescribed_append_def list_ex_iff)

lemma insertBefore_None: "insertBefore t n None h = appendChild t n h"
  by (simp add: insertBefore_def appendChild_def RRDocument_insertBefore_def
      RRElement_insertBefore_def RRNode_insertBefore_def RRNode_appendChild_def)

lemma insertBefore_Some_absent:
  "r \<notin> set (children (h t)) \<Longrightarrow> snd (insertBefore t n (Some r) h) = h"
proof -
  assume "r \<notin> set (children (h t))"
  then have "indexOf (children (h t)) r = None" by (simp add: indexOf_None_iff)
  then show ?thesis
    by (simp add: insertBefore_def RRDocument_insertBefore_def RRElement_insertBefore_def
        RRNode_insertBefore_def)
qed

lemma insertBefore_Some_present:
  assumes "r \<in> set (children (h t))"
  shows "snd (insertBefore t n (Some r) h) =
     (if cls (h t) = RRDocument \<or> instanceof_RRElement (cls (h t))
      then h(t := (h t)\<lparr>children := insert_before r n (children (h t))\<rparr>) else h)"
proof -
  from indexOf_mem [OF assms] obtain i where i: "indexOf (children (h t)) r = Some i" ..
  with splice_insert_indexOf [OF i, of n] show ?thesis
    by (simp add: insertBefore_def RRDocument_insertBefore_def RRElement_insertBefore_def
        RRNode_insertBefore_def)
qed

lemma removeChild_absent:
  "n \<notin> set (children (h t)) \<Longrightarrow> snd (removeChild t n h) = h"
proof -
  assume "n \<notin> set (children (h t))"
  then have "indexOf (children (h t)) n = None" by (simp add: indexOf_None_iff)
  then show ?thesis by (simp add: removeChild_def RRNode_removeChild_def)
qed

lemma removeChild_present:
  assumes "n \<in> set (children (h t))"
  shows "children (snd (removeChild t n h) c) =
           (if c = t then remove1 n (children (h t)) else children (h c))"
    and "parentNode (snd (removeChild t n h) x) = (if x = n then None else parentNode (h x))"
    and "parentElement (snd (removeChild t n h) x) = (if x = n then None else parentElement (h x))"
proof -
  from indexOf_mem [OF assms] obtain i where i: "indexOf (children (h t)) n = Some i" ..
  note e = removeChild_def RRNode_removeChild_def Let_def splice_remove_indexOf [OF i]
  show "children (snd (removeChild t n h) c) =
           (if c = t then remove1 n (children (h t)) else children (h c))"
    using i by (simp add: e)
  show "parentNode (snd (removeChild t n h) x) = (if x = n then None else parentNode (h x))"
    using i by (simp add: e)
  show "parentElement (snd (removeChild t n h) x) = (if x = n then None else parentElement (h x))"
    using i by (simp add: e)
qed

lemma children_apply_op:
  "(\<lambda>c. children (apply_op x h c)) = prescribed h x (\<lambda>c. children (h c))"
proof (cases x)
  case (AppendChild t n)
  then show ?thesis by (simp add: children_appendChild)
next
  case (InsertBefore t n r)
  show ?thesis
  proof (cases r)
    case None
    with InsertBefore show ?thesis by (simp add: insertBefore_None children_appendChild)
  next
    case (Some r')
    show ?thesis
    proof (cases "r' \<in> set (children (h t))")
      case True
      with InsertBefore Some show ?thesis
        by (auto simp: insertBefore_Some_present fun_eq_iff)
    next
      case False
      with InsertBefore Some show ?thesis
        by (simp add: insertBefore_Some_absent)
    qed
  qed
next
  case (RemoveChild t n)
  show ?thesis
  proof (cases "n \<in> set (children (h t))")
    case True
    with RemoveChild show ?thesis
      by (auto simp: removeChild_present fun_eq_iff)
  next
    case False
    with RemoveChild show ?thesis
      by (auto simp: removeChild_absent fun_eq_iff remove1_idem)
  qed
qed

lemma nodeType_cls: "cls a = cls b \<Longrightarrow> nodeType a = nodeType b"
  by (simp add: nodeType_def)

lemma prescribed_cong:
  assumes c: "\<And>a. cls (h' a) = cls (h a)"
  shows "prescribed h' x cl = prescribed h x cl"
proof -
  from c have n: "\<And>a. nodeType (h' a) = nodeType (h a)" by (simp add: nodeType_def)
  have r: "\<And>cs m. root_conflict h' cs m = root_conflict h cs m"
    by (simp add: root_conflict_def n)
  have a: "\<And>t m. prescribed_append h' t m cl = prescribed_append h t m cl"
    by (simp add: prescribed_append_def c r)
  show ?thesis
  proof (cases x)
    case (InsertBefore t m r')
    then show ?thesis by (cases r') (simp_all add: c a)
  qed (simp_all add: c a)
qed

lemma prescribed_run_cong:
  assumes c: "\<And>a. cls (h' a) = cls (h a)"
  shows "prescribed_run h' xs cl = prescribed_run h xs cl"
proof (induction xs arbitrary: cl)
  case Nil
  show ?case by simp
next
  case (Cons x xs)
  have "prescribed_run h' (x # xs) cl = prescribed_run h' xs (prescribed h' x cl)" by simp
  also have "\<dots> = prescribed_run h xs (prescribed h' x cl)" by (rule Cons.IH)
  also have "prescribed h' x cl = prescribed h x cl" by (rule prescribed_cong [OF c])
  finally show ?case by simp
qed

lemma children_run_ops:
  "(\<lambda>c. children (run_ops xs h c)) = prescribed_run h xs (\<lambda>c. children (h c))"
proof (induction xs arbitrary: h)
  case Nil
  show ?case by simp
next
  case (Cons x xs)
  have "(\<lambda>c. children (run_ops (x # xs) h c)) =
        prescribed_run (apply_op x h) xs (\<lambda>c. children (apply_op x h c))"
    using Cons.IH [of "apply_op x h"] by simp
  also have "\<dots> = prescribed_run h xs (\<lambda>c. children (apply_op x h c))"
    by (rule prescribed_run_cong) (rule cls_apply_op)
  finally show ?case by (simp add: children_apply_op)
qed

lemma appendChild_effect:
  "snd (appendChild t n h) = h \<or>
   (\<forall>c. children (snd (appendChild t n h) c) =
          (if c = t then children (h t) @ [n] else children (h c))) \<and>
   (\<forall>x. parentNode (snd (appendChild t n h) x) = (if x = n then Some t else parentNode (h x))) \<and>
   (\<forall>x. parentElement (snd (appendChild t n h) x) =
          (if x = n then (if instanceof_RRElement (cls (h t)) then Some t else None)
           else parentElement (h x)))"
  by (auto simp: method_defs)

lemma tree_ok_attach:
  assumes ok: "tree_ok h" and det: "detached h n"
    and ch: "\<And>c. children (h' c) = (if c = t then children (h t) @ [n] else children (h c))"
    and pn: "\<And>x. parentNode (h' x) = (if x = n then Some t else parentNode (h x))"
    and pe: "\<And>x. parentElement (h' x) =
          (if x = n then (if instanceof_RRElement (cls (h t)) then Some t else None)
           else parentElement (h x))"
    and cl: "\<And>x. cls (h' x) = cls (h x)"
  shows "tree_ok h'"
  unfolding tree_ok_def
proof (intro conjI allI impI)
  fix c m
  assume m: "m \<in> set (children (h' c))"
  show "parentNode (h' m) = Some c"
  proof (cases "m = n")
    case True
    with m det have "c = t" by (auto simp: ch detached_def split: if_splits)
    with True show ?thesis by (simp add: pn)
  next
    case False
    with m have "m \<in> set (children (h c))" by (auto simp: ch split: if_splits)
    with ok False show ?thesis by (simp add: tree_ok_def pn)
  qed
  show "parentElement (h' m) = (if instanceof_RRElement (cls (h' c)) then Some c else None)"
  proof (cases "m = n")
    case True
    with m det have "c = t" by (auto simp: ch detached_def split: if_splits)
    with True show ?thesis by (simp add: pe cl)
  next
    case False
    with m have "m \<in> set (children (h c))" by (auto simp: ch split: if_splits)
    with ok False show ?thesis by (simp add: tree_ok_def pe cl)
  qed
next
  fix m
  assume d: "detached h' m"
  then have "m \<noteq> n" by (auto simp: detached_def ch dest: spec [of _ t])
  moreover from d have "detached h m"
    unfolding detached_def by (metis ch in_set_conv_decomp append_assoc Un_iff set_append)
  ultimately show "parentNode (h' m) = None" "parentElement (h' m) = None"
    using ok by (simp_all add: tree_ok_def pn pe)
next
  fix c
  from ok have "distinct (children (h c))" "distinct (children (h t))" by (simp_all add: tree_ok_def)
  moreover from det have "n \<notin> set (children (h t))" by (simp add: detached_def)
  ultimately show "distinct (children (h' c))" by (simp add: ch)
qed

lemma tree_ok_detach:
  assumes ok: "tree_ok h" and mem: "n \<in> set (children (h t))"
    and ch: "\<And>c. children (h' c) = (if c = t then remove1 n (children (h t)) else children (h c))"
    and pn: "\<And>x. parentNode (h' x) = (if x = n then None else parentNode (h x))"
    and pe: "\<And>x. parentElement (h' x) = (if x = n then None else parentElement (h x))"
    and cl: "\<And>x. cls (h' x) = cls (h x)"
  shows "tree_ok h'"
  unfolding tree_ok_def
proof (intro conjI allI impI)
  from ok have dist: "\<And>c. distinct (children (h c))" by (simp add: tree_ok_def)
  from ok mem have pnn: "parentNode (h n) = Some t" by (simp add: tree_ok_def)
  have only: "\<And>c. n \<in> set (children (h c)) \<Longrightarrow> c = t"
  proof -
    fix c assume "n \<in> set (children (h c))"
    with ok have "parentNode (h n) = Some c" by (simp add: tree_ok_def)
    with pnn show "c = t" by simp
  qed
  have sub: "\<And>c m. m \<in> set (children (h' c)) \<Longrightarrow> m \<in> set (children (h c)) \<and> m \<noteq> n"
  proof -
    fix c m assume m: "m \<in> set (children (h' c))"
    show "m \<in> set (children (h c)) \<and> m \<noteq> n"
    proof (cases "c = t")
      case True
      with m dist [of t] show ?thesis by (auto simp: ch)
    next
      case False
      with m only [of c] show ?thesis by (auto simp: ch)
    qed
  qed
  {
    fix c m
    assume m: "m \<in> set (children (h' c))"
    from sub [OF m] ok show "parentNode (h' m) = Some c"
      by (simp add: tree_ok_def pn)
    from sub [OF m] ok
    show "parentElement (h' m) = (if instanceof_RRElement (cls (h' c)) then Some c else None)"
      by (simp add: tree_ok_def pe cl)
  }
  {
    fix m
    assume d: "detached h' m"
    show "parentNode (h' m) = None"
    proof (cases "m = n")
      case True
      then show ?thesis by (simp add: pn)
    next
      case False
      have "detached h m"
        unfolding detached_def
      proof
        fix c
        from d have "m \<notin> set (children (h' c))" by (simp add: detached_def)
        with False show "m \<notin> set (children (h c))" by (auto simp: ch split: if_splits)
      qed
      with ok False show ?thesis by (simp add: tree_ok_def pn)
    qed
    show "parentElement (h' m) = None"
    proof (cases "m = n")
      case True
      then show ?thesis by (simp add: pe)
    next
      case False
      have "detached h m"
        unfolding detached_def
      proof
        fix c
        from d have "m \<notin> set (children (h' c))" by (simp add: detached_def)
        with False show "m \<notin> set (children (h c))" by (auto simp: ch split: if_splits)
      qed
      with ok False show ?thesis by (simp add: tree_ok_def pe)
    qed
  }
  fix c
  from dist [of c] dist [of t] show "distinct (children (h' c))" by (simp add: ch)
qed

lemma tree_ok_appendChild:
  assumes "tree_ok h" and "detached h n"
  shows "tree_ok (snd (appendChild t n h))"
proof -
  from appendChild_effect [of t n h] show ?thesis
  proof
    assume "snd (appendChild t n h) = h"
    with assms(1) show ?thesis by simp
  next
    assume e: "(\<forall>c. children (snd (appendChild t n h) c) =
          (if c = t then children (h t) @ [n] else children (h c))) \<and>
      (\<forall>x. parentNode (snd (appendChild t n h) x) = (if x = n then Some t else parentNode (h x))) \<and>
      (\<forall>x. parentElement (snd (appendChild t n h) x) =
          (if x = n then (if instanceof_RRElement (cls (h t)) then Some t else None)
           else parentElement (h x)))"
    show ?thesis
      by (rule tree_ok_attach [OF assms, of _ t]) (simp_all add: e cls_appendChild)
  qed
qed

lemma tree_ok_removeChild:
  assumes "tree_ok h"
  shows "tree_ok (snd (removeChild t n h))"
proof (cases "n \<in> set (children (h t))")
  case True
  show ?thesis
    by (rule tree_ok_detach [OF assms True])
      (simp_all add: removeChild_present [of n h t, OF True] cls_removeChild)
next
  case False
  with assms show ?thesis by (simp add: removeChild_absent)
qed

lemma tree_ok_apply_op:
  assumes "tree_ok h" and "op_ok x h"
  shows "tree_ok (apply_op x h)"
proof (cases x)
  case (AppendChild t n)
  with assms show ?thesis by (simp add: tree_ok_appendChild)
next
  case (InsertBefore t n r)
  with assms show ?thesis by (simp add: insertBefore_None tree_ok_appendChild)
next
  case (RemoveChild t n)
  with assms show ?thesis by (simp add: tree_ok_removeChild)
qed

lemma tree_ok_run_ops:
  "tree_ok h \<Longrightarrow> admissible xs h \<Longrightarrow> tree_ok (run_ops xs h)"
  by (induction xs arbitrary: h) (simp_all add: tree_ok_apply_op)

lemma tree_ok_example: "tree_ok example_heap"
  by (simp add: tree_ok_def detached_def example_defs)

text \<open>
  C2, as the code has it.  For every heap and every sequence of \<^verbatim>\<open>appendChild\<close>,
  \<^verbatim>\<open>insertBefore\<close> and \<^verbatim>\<open>removeChild\<close> calls, on any receivers, the children lists after
  the sequence are the ones the calls prescribe.  If moreover the heap starts consistent
  and every call is a \<^verbatim>\<open>removeChild\<close> or attaches (by \<^verbatim>\<open>appendChild\<close> or by \<^verbatim>\<open>insertBefore\<close>
  with \<^verbatim>\<open>null\<close>) a node that is in no children list at that moment, then the heap is
  consistent after the sequence, hence after each call of it: every node in a children
  list has \<^verbatim>\<open>parentNode\<close> equal to that container and \<^verbatim>\<open>parentElement\<close> equal to it when
  the container is an element and \<^verbatim>\<open>null\<close> otherwise, and every node in no list has
  \<^verbatim>\<open>null\<close> back-references.
\<close>

theorem C2_order_and_backrefs:
  "(\<lambda>c. children (run_ops xs h c)) = prescribed_run h xs (\<lambda>c. children (h c)) \<and>
   (tree_ok h \<and> admissible xs h \<longrightarrow> tree_ok (run_ops xs h))"
  by (simp add: children_run_ops tree_ok_run_ops)

theorem C2_order_and_backrefs_witness:
  "tree_ok (run_ops [AppendChild 1 2, AppendChild 0 1, RemoveChild 1 2, InsertBefore 1 4 None]
     example_heap) \<and>
   children (run_ops [AppendChild 1 2, AppendChild 0 1, RemoveChild 1 2, InsertBefore 1 4 None]
     example_heap 1) = [4] \<and>
   children (run_ops [AppendChild 1 2, AppendChild 0 1, RemoveChild 1 2, InsertBefore 1 4 None]
     example_heap 0) = [1]"
proof -
  let ?xs = "[AppendChild 1 2, AppendChild 0 1, RemoveChild 1 2, InsertBefore 1 4 None]"
  have a: "admissible ?xs example_heap"
    by (simp add: detached_def method_defs example_defs)
  have p: "prescribed_run example_heap ?xs (\<lambda>c. children (example_heap c)) 1 = [4]"
    "prescribed_run example_heap ?xs (\<lambda>c. children (example_heap c)) 0 = [1]"
    by (simp_all add: prescribed_append_def root_conflict_def nodeType_def example_defs)
  from C2_order_and_backrefs [of ?xs example_heap] tree_ok_example a
  have "tree_ok (run_ops ?xs example_heap)"
    and "\<And>c. children (run_ops ?xs example_heap c) =
           prescribed_run example_heap ?xs (\<lambda>c. children (example_heap c)) c"
    by (simp_all add: fun_eq_iff)
  with p show ?thesis by simp
qed

text \<open>
  The claim as stated fails twice.  Appending a node twice and removing it once leaves it
  in the children list with \<^verbatim>\<open>null\<close> back-references, since no method detaches a node
  before attaching it.  And \<^verbatim>\<open>insertBefore\<close> with a reference child splices the new node in
  without writing its back-references.  Either way the heap is no longer consistent.
\<close>

theorem C2_backrefs_counterexample:
  "children (run_ops [AppendChild 1 2, AppendChild 1 2, RemoveChild 1 2] example_heap 1) = [2] \<and>
   parentNode (run_ops [AppendChild 1 2, AppendChild 1 2, RemoveChild 1 2] example_heap 2) = None \<and>
   \<not> tree_ok (run_ops [AppendChild 1 2, AppendChild 1 2, RemoveChild 1 2] example_heap) \<and>
   children (run_ops [AppendChild 1 2, InsertBefore 1 4 (Some 2)] example_heap 1) = [4, 2] \<and>
   parentNode (run_ops [AppendChild 1 2, InsertBefore 1 4 (Some 2)] example_heap 4) = None \<and>
   parentElement (run_ops [AppendChild 1 2, InsertBefore 1 4 (Some 2)] example_heap 4) = None \<and>
   \<not> tree_ok (run_ops [AppendChild 1 2, InsertBefore 1 4 (Some 2)] example_heap)"
proof -
  let ?h = "run_ops [AppendChild 1 2, AppendChild 1 2, RemoveChild 1 2] example_heap"
  let ?k = "run_ops [AppendChild 1 2, InsertBefore 1 4 (Some 2)] example_heap"
  have h: "children (?h 1) = [2]" "parentNode (?h 2) = None"
    by (simp_all add: method_defs example_defs)
  have k: "children (?k 1) = [4, 2]" "parentNode (?k 4) = None" "parentElement (?k 4) = None"
    by (simp_all add: method_defs example_defs)
  have "\<not> tree_ok ?h"
  proof
    assume "tree_ok ?h"
    then have "2 \<in> set (children (?h 1)) \<longrightarrow> parentNode (?h 2) = Some 1"
      unfolding tree_ok_def by blast
    with h show False by simp
  qed
  moreover have "\<not> tree_ok ?k"
  proof
    assume "tree_ok ?k"
    then have "4 \<in> set (children (?k 1)) \<longrightarrow> parentNode (?k 4) = Some 1"
      unfolding tree_ok_def by blast
    with k show False by simp
  qed
  ultimately show ?thesis using h k by simp
qed

section \<open>The style view (C8)\<close>

text \<open>
  C8.  Take an element with no \<^verbatim>\<open>style\<close> attribute (or an empty one), a normalizer that maps
  \<^verbatim>\<open>background-color\<close> to \<^verbatim>\<open>backgroundColor\<close>, and a serializer and parser that are inverse on
  the map with the one entry \<^verbatim>\<open>backgroundColor: red\<close>, whose serialized text is not empty.
  Then \<^verbatim>\<open>style.setProperty('background-color', 'red')\<close> leaves the serialized form of that
  map in \<^verbatim>\<open>attributes.style\<close>, and the next read of \<^verbatim>\<open>style\<close> is that map, with
  \<^verbatim>\<open>backgroundColor\<close> equal to \<^verbatim>\<open>red\<close>.  In general, on any view and element,
  \<^verbatim>\<open>setProperty\<close> removes the normalized name from the view when the value is \<^verbatim>\<open>null\<close> or
  empty and binds it to the value otherwise, then stores the serialization of the whole
  view in \<^verbatim>\<open>attributes.style\<close> of the element, and changes nothing else in the heap.
\<close>

theorem C8_style_setProperty:
  "(\<not> truthy (attributes (h e) ''style'') \<and>
    camelize ''background-color'' = ''backgroundColor'' \<and>
    toCSSText [(''backgroundColor'', ''red'')] \<noteq> [] \<and>
    parseCSSText (AStr (toCSSText [(''backgroundColor'', ''red'')])) = [(''backgroundColor'', ''red'')]
    \<longrightarrow>
      (let r = style_setProperty camelize toCSSText e (RRElement_style parseCSSText e h)
                 ''background-color'' (Some ''red'') h
       in attributes (snd r e) ''style'' = Some (AStr (toCSSText [(''backgroundColor'', ''red'')])) \<and>
          RRElement_style parseCSSText e (snd r) = [(''backgroundColor'', ''red'')] \<and>
          map_of (RRElement_style parseCSSText e (snd r)) ''backgroundColor'' = Some ''red'')) \<and>
   (let r = style_setProperty camelize toCSSText e style name value h
    in map_of (fst r) =
         (if value = None \<or> value = Some [] then (map_of style)(camelize name := None)
          else (map_of style)(camelize name := value)) \<and>
       snd r = h(e := (h e)\<lparr>attributes :=
                  (attributes (h e))(''style'' \<mapsto> AStr (toCSSText (fst r)))\<rparr>))"
proof -
  have a: "\<not> truthy (attributes (h e) ''style'') \<Longrightarrow> RRElement_style parseCSSText e h = []"
    by (auto simp: RRElement_style_def split: option.splits)
  show ?thesis
    by (auto simp: a style_setProperty_def RRElement_style_def Let_def update_conv' delete_conv'
        split: option.splits)
qed

theorem C8_style_setProperty_witness:
  "attributes
     (snd (style_setProperty example_camelize example_toCSSText 2
        (RRElement_style example_parseCSSText 2 example_heap) ''background-color'' (Some ''red'')
        example_heap) 2) ''style'' = Some (AStr ''background-color: red;'') \<and>
   map_of (RRElement_style example_parseCSSText 2
     (snd (style_setProperty example_camelize example_toCSSText 2
        (RRElement_style example_parseCSSText 2 example_heap) ''background-color'' (Some ''red'')
        example_heap))) ''backgroundColor'' = Some ''red''"
proof -
  have a: "attributes (example_heap 2) ''style'' = None"
    by (simp add: example_defs)
  have b: "example_camelize ''background-color'' = ''backgroundColor''"
    by (simp add: example_camelize_def)
  have c: "example_toCSSText [(''backgroundColor'', ''red'')] = ''background-color: red;''"
    by (simp add: example_toCSSText_def)
  have d: "example_parseCSSText (AStr ''background-color: red;'') = [(''backgroundColor'', ''red'')]"
    by (simp add: example_parseCSSText_def)
  have e: "\<not> truthy (attributes (example_heap 2) ''style'') \<and>
      example_camelize ''background-color'' = ''backgroundColor'' \<and>
      example_toCSSText [(''backgroundColor'', ''red'')] \<noteq> [] \<and>
      example_parseCSSText (AStr (example_toCSSText [(''backgroundColor'', ''red'')])) =
        [(''backgroundColor'', ''red'')]"
    using a b c d by simp
  from C8_style_setProperty [of example_heap 2 example_camelize example_toCSSText
      example_parseCSSText, THEN conjunct1, THEN mp, OF e] c
  show ?thesis by (simp add: Let_def)
qed

section \<open>Identifiers generated by one walk (C6)\<close>

lemma countdown_same: "countdown c c = []"
  by (simp add: countdown_def)

lemma countdown_step: "countdown c (c - 1) = [c]"
  by (simp add: countdown_def)

lemma length_countdown: "length (countdown c c') = nat (c - c')"
  by (simp add: countdown_def)

lemma nth_countdown: "i < nat (c - c') \<Longrightarrow> countdown c c' ! i = c - int i"
  by (simp add: countdown_def)

lemma countdown_append:
  assumes "c' \<le> c1" and "c1 \<le> c"
  shows "countdown c c1 @ countdown c1 c' = countdown c c'"
proof (rule nth_equalityI)
  show "length (countdown c c1 @ countdown c1 c') = length (countdown c c')"
    using assms by (simp add: length_countdown)
next
  fix i
  assume "i < length (countdown c c1 @ countdown c1 c')"
  then have i: "i < nat (c - c')" using assms by (simp add: length_countdown)
  show "(countdown c c1 @ countdown c1 c') ! i = countdown c c' ! i"
  proof (cases "i < nat (c - c1)")
    case True
    then show ?thesis
      using i by (simp add: nth_append length_countdown nth_countdown)
  next
    case False
    then have j: "i - nat (c - c1) < nat (c1 - c')" using i assms by linarith
    have "c1 - int (i - nat (c - c1)) = c - int i" using False assms by linarith
    with False j show ?thesis
      using i by (simp add: nth_append length_countdown nth_countdown)
  qed
qed

lemma generated_append:
  "generated f g (as @ bs) = generated f g as @ generated f g bs"
  by (simp add: generated_def)

lemma generated_cong:
  "(\<And>a. a \<in> set as \<Longrightarrow> f a = f' a \<and> g a = g' a) \<Longrightarrow> generated f g as = generated f' g' as"
  unfolding generated_def by (induction as) auto

lemma generated_same: "generated f f as = []"
  unfolding generated_def by (induction as) auto

lemma stamps_ok_same:
  "live_sn s' = live_sn s \<Longrightarrow> notSerializedId s' = notSerializedId s \<Longrightarrow> stamps_ok as s s'"
  by (simp add: stamps_ok_def generated_same countdown_same)

lemma stamps_ok_trans:
  assumes a: "stamps_ok as s s1" and b: "stamps_ok bs s1 s'"
  shows "stamps_ok (as @ bs) s s'"
  unfolding stamps_ok_def
proof (intro conjI allI impI)
  from a b show "notSerializedId s' \<le> notSerializedId s" by (simp add: stamps_ok_def)
next
  fix x assume "x \<notin> set (as @ bs)"
  with a b show "live_sn s' x = live_sn s x" by (simp add: stamps_ok_def)
next
  fix x assume "live_sn s x \<noteq> None"
  with a b show "live_sn s' x = live_sn s x" by (simp add: stamps_ok_def)
next
  assume d: "distinct (as @ bs)"
  have 1: "generated (live_sn s) (live_sn s') as = generated (live_sn s) (live_sn s1) as"
  proof (rule generated_cong)
    fix x assume "x \<in> set as"
    with d have "x \<notin> set bs" by auto
    with b show "live_sn s x = live_sn s x \<and> live_sn s' x = live_sn s1 x"
      by (simp add: stamps_ok_def)
  qed
  have 2: "generated (live_sn s) (live_sn s') bs = generated (live_sn s1) (live_sn s') bs"
  proof (rule generated_cong)
    fix x assume "x \<in> set bs"
    with d have "x \<notin> set as" by auto
    with a show "live_sn s x = live_sn s1 x \<and> live_sn s' x = live_sn s' x"
      by (simp add: stamps_ok_def)
  qed
  from a b d have
    "generated (live_sn s) (live_sn s1) as = countdown (notSerializedId s) (notSerializedId s1)"
    "generated (live_sn s1) (live_sn s') bs = countdown (notSerializedId s1) (notSerializedId s')"
    "notSerializedId s' \<le> notSerializedId s1" "notSerializedId s1 \<le> notSerializedId s"
    by (simp_all add: stamps_ok_def)
  with 1 2 show "generated (live_sn s) (live_sn s') (as @ bs) =
      countdown (notSerializedId s) (notSerializedId s')"
    by (simp add: generated_append countdown_append)
qed

lemma stamps_ok_weaken:
  assumes "stamps_ok as s s'"
  shows "stamps_ok (as @ bs) s s'"
proof -
  have "stamps_ok bs s' s'" by (rule stamps_ok_same) simp_all
  with assms show ?thesis by (rule stamps_ok_trans)
qed

lemma new_object_frame:
  "live_sn (snd (new_object n s)) = live_sn s"
  "notSerializedId (snd (new_object n s)) = notSerializedId s"
  by (simp_all add: new_object_def)

lemma createElement_frame:
  "live_sn (snd (createElement tag s)) = live_sn s"
  "notSerializedId (snd (createElement tag s)) = notSerializedId s"
  by (simp_all add: createElement_def new_object_frame Let_def case_prod_beta)

lemma createFor_frame:
  "live_sn (snd (createFor this node x s)) = live_sn s"
  "notSerializedId (snd (createFor this node x s)) = notSerializedId s"
  by (simp_all add: createFor_def createDocument_def createDocumentType_def createTextNode_def
      createCDATASection_def createComment_def new_object_frame createElement_frame Let_def
      case_prod_beta split: sum.splits)

lemma resolve_frame:
  "live_sn (snd (resolve this node x s)) = live_sn s"
  "notSerializedId (snd (resolve this node x s)) = notSerializedId s"
  using createFor_frame [of this node x s]
  by (auto simp: resolve_def Let_def split: prod.splits sum.splits option.splits)

lemma attach_frame:
  "live_sn (snd (attach this parent r s)) = live_sn s"
  "notSerializedId (snd (attach this parent r s)) = notSerializedId s"
  by (auto simp: attach_def Let_def split: prod.splits sum.splits option.splits)

lemma visit_frame:
  "live_sn (snd (visit this parent a node s)) = live_sn (snd (identify a node s))"
  "notSerializedId (snd (visit this parent a node s)) = notSerializedId (snd (identify a node s))"
proof -
  obtain x s1 where i: "identify a node s = (x, s1)" by (cases "identify a node s")
  obtain r s2 where r: "resolve this node x s1 = (r, s2)" by (cases "resolve this node x s1")
  from resolve_frame [of this node x s1] r
  have s2: "live_sn s2 = live_sn s1" "notSerializedId s2 = notSerializedId s1" by simp_all
  have "live_sn (snd (visit this parent a node s)) = live_sn s1 \<and>
        notSerializedId (snd (visit this parent a node s)) = notSerializedId s1"
  proof (cases r)
    case (Inl err)
    with i r s2 show ?thesis by (simp add: visit_def)
  next
    case (Inr ro)
    show ?thesis
    proof (cases ro)
      case None
      with Inr i r s2 show ?thesis by (simp add: visit_def)
    next
      case (Some rr)
      obtain e s3 where t: "attach this parent rr s2 = (e, s3)"
        by (cases "attach this parent rr s2")
      from attach_frame [of this parent rr s2] t
      have "live_sn s3 = live_sn s2" "notSerializedId s3 = notSerializedId s2" by simp_all
      with Some Inr i r s2 t show ?thesis
        by (cases e) (simp_all add: visit_def)
    qed
  qed
  with i show "live_sn (snd (visit this parent a node s)) = live_sn (snd (identify a node s))"
    "notSerializedId (snd (visit this parent a node s)) = notSerializedId (snd (identify a node s))"
    by simp_all
qed

lemma stamps_ok_identify: "stamps_ok [a] s (snd (identify a node s))"
proof (cases "live_sn s a")
  case None
  then show ?thesis
    by (simp add: identify_def stamps_ok_def generated_def countdown_step Let_def)
next
  case (Some x)
  then show ?thesis by (simp add: identify_def stamps_ok_same)
qed

lemma stamps_ok_frame_cong:
  "stamps_ok as s t \<Longrightarrow> live_sn s' = live_sn t \<Longrightarrow> notSerializedId s' = notSerializedId t
     \<Longrightarrow> stamps_ok as s s'"
  by (simp add: stamps_ok_def)

lemma stamps_ok_visit: "stamps_ok [a] s (snd (visit this parent a node s))"
  by (rule stamps_ok_frame_cong [OF stamps_ok_identify]) (simp_all add: visit_frame)

lemma stamps_ok_walk:
  "stamps_ok (live_addrs t) s (snd (walk this parent t s))"
  "stamps_ok (live_addrs_list ks) s (snd (walk_children this p ks s))"
proof (induction this parent t s and this p ks s rule: walk_walk_children.induct)
  case (1 this parent a node kids s)
  obtain out s1 where v: "visit this parent a node s = (out, s1)"
    by (cases "visit this parent a node s")
  from stamps_ok_visit [of a s this parent node] v have a: "stamps_ok [a] s s1" by simp
  show ?case
  proof (cases out)
    case Descend
    with 1 [of out s1] v have "stamps_ok (live_addrs_list kids) s1 (snd (walk_children this a kids s1))"
      by simp
    with a have "stamps_ok ([a] @ live_addrs_list kids) s (snd (walk_children this a kids s1))"
      by (rule stamps_ok_trans)
    with v Descend show ?thesis by simp
  next
    case Return
    from stamps_ok_weaken [OF a, of "live_addrs_list kids"] v Return show ?thesis by simp
  next
    case (Throw err)
    from stamps_ok_weaken [OF a, of "live_addrs_list kids"] v Throw show ?thesis by simp
  qed
next
  case (2 this p s)
  show ?case by (simp add: stamps_ok_same)
next
  case (3 this p k ks s)
  obtain e s1 where w: "walk this (Some p) k s = (e, s1)"
    by (cases "walk this (Some p) k s")
  from 3(1) w have a: "stamps_ok (live_addrs k) s s1" by simp
  show ?case
  proof (cases e)
    case None
    with 3(2) [of e s1] w have "stamps_ok (live_addrs_list ks) s1 (snd (walk_children this p ks s1))"
      by simp
    with a have "stamps_ok (live_addrs k @ live_addrs_list ks) s (snd (walk_children this p ks s1))"
      by (rule stamps_ok_trans)
    with w None show ?thesis by simp
  next
    case (Some err)
    from stamps_ok_weaken [OF a, of "live_addrs_list ks"] w Some show ?thesis by simp
  qed
qed

lemma identify_stamps: "live_sn (snd (identify a node s)) a \<noteq> None"
  by (cases "live_sn s a") (simp_all add: identify_def Let_def)

lemma walk_root_stamped: "live_sn (snd (walk this parent t s)) (live_id t) \<noteq> None"
proof (cases t)
  case (Live a node kids)
  obtain out s1 where v: "visit this parent a node s = (out, s1)"
    by (cases "visit this parent a node s")
  from visit_frame(1) [of this parent a node s] v identify_stamps [of a node s]
  have s1: "live_sn s1 a \<noteq> None" by simp
  show ?thesis
  proof (cases out)
    case Descend
    from stamps_ok_walk(2) [of kids s1 this a] s1
    have "live_sn (snd (walk_children this a kids s1)) a = live_sn s1 a"
      by (simp add: stamps_ok_def)
    with s1 v Descend Live show ?thesis by simp
  next
    case Return
    with s1 v Live show ?thesis by simp
  next
    case (Throw err)
    with s1 v Live show ?thesis by simp
  qed
qed

lemma countdown_props:
  "(\<forall>i\<in>set (map (\<lambda>i. - 1 - int i) [0..<n]). i < 0) \<and>
   sorted_wrt (>) (map (\<lambda>i. - 1 - int i) [0..<n]) \<and>
   distinct (map (\<lambda>i. - 1 - int i) [0..<n])"
proof (intro conjI)
  show "\<forall>i\<in>set (map (\<lambda>i. - 1 - int i) [0..<n]). i < 0" by auto
  have "sorted_wrt (<) [0..<n]" by simp
  then have "sorted_wrt (\<lambda>x y. - 1 - int x > - 1 - int y) [0..<n]"
    by (rule sorted_wrt_mono_rel [rotated]) simp
  then show "sorted_wrt (>) (map (\<lambda>i. - 1 - int i) [0..<n])"
    by (simp add: sorted_wrt_map)
  show "distinct (map (\<lambda>i. - 1 - int i) [0..<n])"
    by (simp add: distinct_map inj_on_def)
qed

lemma visits_subset:
  "set (visits this parent t s) \<subseteq> set (live_addrs t)"
  "set (visits_children this p ks s) \<subseteq> set (live_addrs_list ks)"
proof (induction this parent t s and this p ks s rule: visits_visits_children.induct)
  case (1 this parent a node kids s)
  obtain out s1 where v: "visit this parent a node s = (out, s1)"
    by (cases "visit this parent a node s")
  show ?case
  proof (cases out)
    case Descend
    with 1 [of out s1] v show ?thesis by auto
  qed (use v in simp_all)
next
  case (2 this p s)
  show ?case by simp
next
  case (3 this p k ks s)
  obtain e s1 where w: "walk this (Some p) k s = (e, s1)"
    by (cases "walk this (Some p) k s")
  show ?case
  proof (cases e)
    case None
    with 3(1) 3(2) [of e s1] w show ?thesis by auto
  next
    case (Some err)
    with 3(1) w show ?thesis by auto
  qed
qed

lemma filter_cong_set: "(\<And>x. x \<in> set xs \<Longrightarrow> P x = Q x) \<Longrightarrow> filter P xs = filter Q xs"
  by (induction xs) auto

lemma visited_unrecorded:
  "distinct (live_addrs t) \<Longrightarrow>
     filter (\<lambda>a. live_sn s a = None \<and> live_sn (snd (walk this parent t s)) a \<noteq> None) (live_addrs t)
       = filter (\<lambda>a. live_sn s a = None) (visits this parent t s)"
  "distinct (live_addrs_list ks) \<Longrightarrow>
     filter (\<lambda>a. live_sn s a = None \<and> live_sn (snd (walk_children this p ks s)) a \<noteq> None)
        (live_addrs_list ks)
       = filter (\<lambda>a. live_sn s a = None) (visits_children this p ks s)"
proof (induction this parent t s and this p ks s rule: walk_walk_children.induct)
  case (1 this parent a node kids s)
  let ?t = "Live a node kids"
  let ?s' = "snd (walk this parent ?t s)"
  obtain out s1 where v: "visit this parent a node s = (out, s1)"
    by (cases "visit this parent a node s")
  from stamps_ok_visit [of a s this parent node] v have a: "stamps_ok [a] s s1" by simp
  from "1.prems" have na: "a \<notin> set (live_addrs_list kids)" and dk: "distinct (live_addrs_list kids)"
    by simp_all
  from walk_root_stamped [of this parent ?t s] have root: "live_sn ?s' a \<noteq> None" by simp
  have s1: "\<And>b. b \<in> set (live_addrs_list kids) \<Longrightarrow> live_sn s1 b = live_sn s b"
    using a na by (auto simp: stamps_ok_def)
  show ?case
  proof (cases out)
    case Descend
    then have s': "?s' = snd (walk_children this a kids s1)" using v by simp
    have "filter (\<lambda>b. live_sn s b = None \<and> live_sn ?s' b \<noteq> None) (live_addrs_list kids) =
          filter (\<lambda>b. live_sn s1 b = None \<and> live_sn ?s' b \<noteq> None) (live_addrs_list kids)"
      by (rule filter_cong_set) (simp add: s1)
    also have "\<dots> = filter (\<lambda>b. live_sn s1 b = None) (visits_children this a kids s1)"
      using "1.IH" [of out s1, OF _ Descend dk] v s' by simp
    also have "\<dots> = filter (\<lambda>b. live_sn s b = None) (visits_children this a kids s1)"
      by (rule filter_cong_set) (use visits_subset(2) [of this a kids s1] s1 in auto)
    finally show ?thesis using root v Descend by simp
  next
    case Return
    then have s': "?s' = s1" using v by simp
    have "filter (\<lambda>b. live_sn s b = None \<and> live_sn s1 b \<noteq> None) (live_addrs_list kids) = []"
      by (auto simp: filter_empty_conv s1)
    with root v Return s' show ?thesis by simp
  next
    case (Throw err)
    then have s': "?s' = s1" using v by simp
    have "filter (\<lambda>b. live_sn s b = None \<and> live_sn s1 b \<noteq> None) (live_addrs_list kids) = []"
      by (auto simp: filter_empty_conv s1)
    with root v Throw s' show ?thesis by simp
  qed
next
  case (2 this p s)
  show ?case by simp
next
  case (3 this p k ks s)
  define s' where "s' = snd (walk_children this p (k # ks) s)"
  obtain e s1 where w: "walk this (Some p) k s = (e, s1)"
    by (cases "walk this (Some p) k s")
  from "3.prems" have dk: "distinct (live_addrs k)" and dks: "distinct (live_addrs_list ks)"
    and dis: "set (live_addrs k) \<inter> set (live_addrs_list ks) = {}" by simp_all
  from stamps_ok_walk(1) [of k s this "Some p"] w have a: "stamps_ok (live_addrs k) s s1" by simp
  have s1: "\<And>b. b \<in> set (live_addrs_list ks) \<Longrightarrow> live_sn s1 b = live_sn s b"
    using a dis by (auto simp: stamps_ok_def)
  from "3.IH"(1) [OF dk] w
  have ih1: "filter (\<lambda>b. live_sn s b = None \<and> live_sn s1 b \<noteq> None) (live_addrs k) =
             filter (\<lambda>b. live_sn s b = None) (visits this (Some p) k s)" by simp
  show ?case
  proof (cases e)
    case None
    then have s': "s' = snd (walk_children this p ks s1)" using w by (simp add: s'_def)
    from stamps_ok_walk(2) [of ks s1 this p] s'
    have b: "stamps_ok (live_addrs_list ks) s1 s'" by simp
    have k': "\<And>b. b \<in> set (live_addrs k) \<Longrightarrow> live_sn s' b = live_sn s1 b"
      using b dis by (auto simp: stamps_ok_def)
    have "filter (\<lambda>b. live_sn s b = None \<and> live_sn s' b \<noteq> None) (live_addrs k) =
          filter (\<lambda>b. live_sn s b = None \<and> live_sn s1 b \<noteq> None) (live_addrs k)"
      by (rule filter_cong_set) (simp add: k')
    with ih1 have 1: "filter (\<lambda>b. live_sn s b = None \<and> live_sn s' b \<noteq> None) (live_addrs k) =
          filter (\<lambda>b. live_sn s b = None) (visits this (Some p) k s)" by simp
    have "filter (\<lambda>b. live_sn s b = None \<and> live_sn s' b \<noteq> None) (live_addrs_list ks) =
          filter (\<lambda>b. live_sn s1 b = None \<and> live_sn s' b \<noteq> None) (live_addrs_list ks)"
      by (rule filter_cong_set) (simp add: s1)
    also have "\<dots> = filter (\<lambda>b. live_sn s1 b = None) (visits_children this p ks s1)"
      using "3.IH"(2) [of e s1, OF _ None dks] w s' by simp
    also have "\<dots> = filter (\<lambda>b. live_sn s b = None) (visits_children this p ks s1)"
      by (rule filter_cong_set) (use visits_subset(2) [of this p ks s1] s1 in auto)
    finally have 2: "filter (\<lambda>b. live_sn s b = None \<and> live_sn s' b \<noteq> None) (live_addrs_list ks) =
        filter (\<lambda>b. live_sn s b = None) (visits_children this p ks s1)" .
    from 1 2 w None show ?thesis unfolding s'_def [symmetric] by simp
  next
    case (Some err)
    then have s': "s' = s1" using w by (simp add: s'_def)
    have "filter (\<lambda>b. live_sn s b = None \<and> live_sn s1 b \<noteq> None) (live_addrs_list ks) = []"
      by (auto simp: filter_empty_conv s1)
    with ih1 w Some s' show ?thesis unfolding s'_def [symmetric] by simp
  qed
qed

text \<open>
  C6.  Take one call of \<^verbatim>\<open>buildFromDom\<close> on a live tree (whose nodes are distinct objects),
  from any state, and the live nodes it visits that had no \<^verbatim>\<open>__sn\<close> before the call, in
  the order of the visits.  After the call each of them carries a record, and the
  identifiers in these records are \<open>-1, -2, ..., -k\<close>: all negative, strictly decreasing,
  pairwise different; the counter ends at \<open>-1 - k\<close>.  The root is the first node visited.
  A node that had a record keeps it, and a node that is not visited keeps what it had.
\<close>

theorem C6_generated_ids:
  assumes "distinct (live_addrs root)"
  shows "(let s' = snd (buildFromDom this (Some root) s);
              vs = filter (\<lambda>a. live_sn s a = None) (buildFromDom_visits this root s);
              g = map (\<lambda>a. sn_id (the (live_sn s' a))) vs
          in hd (buildFromDom_visits this root s) = live_id root \<and>
             (\<forall>a\<in>set vs. live_sn s' a \<noteq> None) \<and>
             g = map (\<lambda>i. - 1 - int i) [0..<length vs] \<and>
             (\<forall>i\<in>set g. i < 0) \<and> sorted_wrt (>) g \<and> distinct g \<and>
             notSerializedId s' = - 1 - int (length vs) \<and>
             (\<forall>b. live_sn s b \<noteq> None \<longrightarrow> live_sn s' b = live_sn s b) \<and>
             (\<forall>b. b \<notin> set (buildFromDom_visits this root s) \<longrightarrow> live_sn s' b = live_sn s b))"
proof -
  define s0 where "s0 = destroyTree this (s\<lparr>notSerializedId := - 1\<rparr>)"
  define s' where "s' = snd (buildFromDom this (Some root) s)"
  define V where "V = buildFromDom_visits this root s"
  define vs where "vs = filter (\<lambda>a. live_sn s a = None) V"
  define g where "g = map (\<lambda>a. sn_id (the (live_sn s' a))) vs"
  have s0: "live_sn s0 = live_sn s" "notSerializedId s0 = - 1"
    by (simp_all add: s0_def destroyTree_def Let_def)
  have b: "s' = snd (walk this None root s0)"
    by (simp add: s'_def s0_def buildFromDom_def Let_def)
  have V: "V = visits this None root s0"
    by (simp add: V_def s0_def buildFromDom_visits_def)
  from stamps_ok_walk(1) [of root s0 this None] b
  have ok: "stamps_ok (live_addrs root) s0 s'" by simp
  from visited_unrecorded(1) [OF assms, of s0 this None] b V s0
  have new: "filter (\<lambda>a. live_sn s a = None \<and> live_sn s' a \<noteq> None) (live_addrs root) = vs"
    by (simp add: vs_def)
  then have gen: "generated (live_sn s) (live_sn s') (live_addrs root) = g"
    by (simp add: generated_def g_def)
  have st: "\<forall>a\<in>set vs. live_sn s' a \<noteq> None"
  proof
    fix a assume "a \<in> set vs"
    with new have "a \<in> set (filter (\<lambda>a. live_sn s a = None \<and> live_sn s' a \<noteq> None) (live_addrs root))"
      by simp
    then show "live_sn s' a \<noteq> None" by simp
  qed
  from ok s0 have le: "notSerializedId s' \<le> - 1" by (simp add: stamps_ok_def)
  from ok s0 assms gen have c: "g = countdown (- 1) (notSerializedId s')"
    by (simp add: stamps_ok_def)
  have lg: "length g = length vs" by (simp add: g_def)
  from c have "length g = nat (- 1 - notSerializedId s')" by (simp add: length_countdown)
  with lg have len: "length vs = nat (- 1 - notSerializedId s')" by simp
  with c have eq: "g = map (\<lambda>i. - 1 - int i) [0..<length vs]"
    by (simp add: countdown_def)
  from len le have n: "notSerializedId s' = - 1 - int (length vs)" by simp
  from countdown_props [of "length vs"] eq
  have p: "(\<forall>i\<in>set g. i < 0) \<and> sorted_wrt (>) g \<and> distinct g" by simp
  have h: "hd V = live_id root" unfolding V by (cases root) simp
  from ok s0 have k: "\<forall>b. live_sn s b \<noteq> None \<longrightarrow> live_sn s' b = live_sn s b"
    by (simp add: stamps_ok_def)
  have f: "\<forall>b. b \<notin> set V \<longrightarrow> live_sn s' b = live_sn s b"
  proof (intro allI impI)
    fix b assume nv: "b \<notin> set V"
    show "live_sn s' b = live_sn s b"
    proof (cases "live_sn s b = None \<and> live_sn s' b \<noteq> None")
      case True
      have "b \<in> set (live_addrs root)"
      proof (rule ccontr)
        assume "b \<notin> set (live_addrs root)"
        with ok s0 have "live_sn s' b = live_sn s b" by (simp add: stamps_ok_def)
        with True show False by auto
      qed
      with True have "b \<in> set (filter (\<lambda>a. live_sn s a = None \<and> live_sn s' a \<noteq> None)
          (live_addrs root))" by simp
      with new have "b \<in> set vs" by simp
      with nv show ?thesis by (simp add: vs_def)
    next
      case False
      show ?thesis
      proof (cases "live_sn s b")
        case None
        with False have "live_sn s' b = None" by simp
        with None show ?thesis by simp
      next
        case (Some x)
        with k show ?thesis by simp
      qed
    qed
  qed
  from h st eq p n k f show ?thesis
    unfolding Let_def s'_def [symmetric] V_def [symmetric] vs_def [symmetric] g_def [symmetric]
    by blast
qed

lemma example_dom_visits:
  "buildFromDom_visits 0 example_dom example_state = [100, 101, 102, 103, 104]"
  by (simp add: buildFromDom_visits_def walk_defs method_defs example_defs live_example_defs)

theorem C6_generated_ids_witness:
  "distinct (live_addrs example_dom) \<and>
   buildFromDom_visits 0 example_dom example_state = [100, 101, 102, 103, 104] \<and>
   map (\<lambda>a. sn_id (the (live_sn (snd (buildFromDom 0 (Some example_dom) example_state)) a)))
     [100, 101, 102, 103, 104] = [- 1, - 2, - 3, - 4, - 5] \<and>
   notSerializedId (snd (buildFromDom 0 (Some example_dom) example_state)) = - 6"
proof -
  let ?s' = "snd (buildFromDom 0 (Some example_dom) example_state)"
  have d: "distinct (live_addrs example_dom)"
    by (simp add: example_dom_def)
  have vs: "filter (\<lambda>a. live_sn example_state a = None)
      (buildFromDom_visits 0 example_dom example_state) = [100, 101, 102, 103, 104]"
    unfolding example_dom_visits by (simp add: example_state_def)
  have u: "[0..<5] = [0, 1, 2, 3, 4::nat]"
    by (simp add: upt_rec)
  note t = C6_generated_ids [OF d, of 0 example_state, unfolded Let_def vs]
  from t have "map (\<lambda>a. sn_id (the (live_sn ?s' a))) [100, 101, 102, 103, 104] =
      map (\<lambda>i. - 1 - int i) [0..<length [100, 101, 102, 103, 104::nat]]"
    by blast
  with u have a: "map (\<lambda>a. sn_id (the (live_sn ?s' a))) [100, 101, 102, 103, 104] =
      [- 1, - 2, - 3, - 4, - 5]"
    by simp
  from t have "notSerializedId ?s' = - 1 - int (length [100, 101, 102, 103, 104::nat])"
    by blast
  then have b: "notSerializedId ?s' = - 6" by simp
  from d a b example_dom_visits show ?thesis by blast
qed

section \<open>Identifiers across walks (C3)\<close>

text \<open>
  C3.  \<^verbatim>\<open>notSerializedId\<close> is a local variable of \<^verbatim>\<open>buildFromDom\<close>, set to \<open>-1\<close> by every
  call, while the identifiers it hands out stay on the live nodes.  A first walk of a
  document with an \<^verbatim>\<open>html\<close> element gives the document \<open>-1\<close> and the element \<open>-2\<close>.  After a
  comment is appended to the live document, a second walk on the same \<^verbatim>\<open>RRDocument\<close> gives
  the comment \<open>-1\<close> again: two live nodes now carry \<open>-1\<close>.  The walk then finds \<open>-1\<close> in the
  mirror, reuses the \<^verbatim>\<open>RRDocument\<close> itself as the virtual node of the comment, empties its
  children and appends it to itself; the call returns normally.
\<close>

theorem C3_second_walk_reuses_generated_id:
  "generated (live_sn example_state)
     (live_sn (snd (buildFromDom 0 (Some example_dom1) example_state)))
     (live_addrs example_dom1) = [- 1, - 2] \<and>
   generated (live_sn (snd (buildFromDom 0 (Some example_dom1) example_state)))
     (live_sn (snd (buildFromDom 0 (Some example_dom2)
        (snd (buildFromDom 0 (Some example_dom1) example_state)))))
     (live_addrs example_dom2) = [- 1] \<and>
   fst (buildFromDom 0 (Some example_dom2)
     (snd (buildFromDom 0 (Some example_dom1) example_state))) = None \<and>
   map (\<lambda>a. map_option sn_id
     (live_sn (snd (buildFromDom 0 (Some example_dom2)
        (snd (buildFromDom 0 (Some example_dom1) example_state)))) a)) [100, 101, 102]
     = [Some (- 1), Some (- 2), Some (- 1)] \<and>
   mirror (heap (snd (buildFromDom 0 (Some example_dom2)
     (snd (buildFromDom 0 (Some example_dom1) example_state)))) 0) (- 1) = Some 0 \<and>
   children (heap (snd (buildFromDom 0 (Some example_dom2)
     (snd (buildFromDom 0 (Some example_dom1) example_state)))) 0) = [0]"
proof -
  let ?s1 = "snd (buildFromDom 0 (Some example_dom1) example_state)"
  let ?r2 = "buildFromDom 0 (Some example_dom2) ?s1"
  have s1: "live_sn ?s1 =
     [100 \<mapsto> \<lparr>sn_type = Some Document, sn_textContent = [], sn_id = - 1, sn_rootId = None\<rparr>,
      101 \<mapsto> \<lparr>sn_type = Some Element, sn_textContent = [], sn_id = - 2, sn_rootId = None\<rparr>]"
    by (simp add: walk_defs method_defs example_defs live_example_defs)
  have s2: "live_sn (snd ?r2) =
     [100 \<mapsto> \<lparr>sn_type = Some Document, sn_textContent = [], sn_id = - 1, sn_rootId = None\<rparr>,
      101 \<mapsto> \<lparr>sn_type = Some Element, sn_textContent = [], sn_id = - 2, sn_rootId = None\<rparr>,
      102 \<mapsto> \<lparr>sn_type = Some Comment, sn_textContent = [], sn_id = - 1, sn_rootId = None\<rparr>]"
    by (simp add: walk_defs method_defs example_defs live_example_defs)
  have h2: "fst ?r2 = None" "mirror (heap (snd ?r2) 0) (- 1) = Some 0"
    "children (heap (snd ?r2) 0) = [0]"
    by (simp_all add: walk_defs method_defs example_defs live_example_defs)
  have la: "live_addrs example_dom1 = [100, 101]" "live_addrs example_dom2 = [100, 101, 102]"
    by (simp_all add: example_dom1_def example_dom2_def)
  have es: "live_sn example_state = Map.empty"
    by (simp add: example_state_def)
  have g1: "generated (live_sn example_state) (live_sn ?s1) (live_addrs example_dom1) = [- 1, - 2]"
    unfolding generated_def s1 la es by simp
  have g2: "generated (live_sn ?s1) (live_sn (snd ?r2)) (live_addrs example_dom2) = [- 1]"
    unfolding generated_def s1 s2 la by simp
  have m: "map (\<lambda>a. map_option sn_id (live_sn (snd ?r2) a)) [100, 101, 102]
     = [Some (- 1), Some (- 2), Some (- 1)]"
    unfolding s2 by simp
  from g1 g2 h2 m show ?thesis by blast
qed

end
